theory Spec2Isabelle
  imports Main "HOL-Library.Sublist"
begin

section \<open>Push notification dispatch of the CarbScan server\<close>

text \<open>
  The development embeds \<^verbatim>\<open>server/notifications.ts\<close> (the dispatcher and the
  scheduler entry point) together with the part of \<^verbatim>\<open>server/storage.ts\<close> it calls
  and the rows of \<^verbatim>\<open>shared/schema.ts\<close> it reads and writes.

  Storage is an explicit state: the two tables are lists of rows, in table order. Every
  \<^verbatim>\<open>await\<close> is sequential, so each operation takes the state and returns the new
  one. An exception is a value: the operations of the dispatcher return
  \<open>js_error + result\<close> next to the state reached when they stop. The push gateway, the
  JSON parser and the clock are collaborators outside the repository; they are the
  fields of the record \<open>env\<close>.

  The functions of the dispatcher are embedded twice. First with a storage whose calls
  always succeed, which is what the properties of one call are about. Then, for the sweep
  over the due messages, with a storage whose calls can be rejected: the functions with
  the suffix \<open>_sf\<close> take an oracle that says which call is rejected in which state and
  raise \<open>StorageError\<close> there; with an oracle that rejects nothing they are the first
  embedding. The lines written to the console (\<^verbatim>\<open>console.warn\<close>,
  \<^verbatim>\<open>console.error\<close>) are not part of the state.
\<close>

subsection \<open>Rows of the schema\<close>

type_synonym timestamp = nat

text \<open>
  Table \<^verbatim>\<open>device_registrations\<close>. The column \<^verbatim>\<open>id\<close> is named \<open>dev_id\<close> here
  (\<open>id\<close> is the identity function of HOL), and the two bookkeeping timestamps carry the
  prefix of their table because both tables have them.
\<close>

record DeviceRegistration =
  dev_id :: string
  userId :: string
  expoPushToken :: string
  platform :: string
  deviceModel :: "string option"
  osVersion :: "string option"
  appVersion :: "string option"
  enabled :: bool
  lastNotifiedAt :: "timestamp option"
  dev_createdAt :: timestamp
  dev_updatedAt :: timestamp

text \<open>
  Table \<^verbatim>\<open>notification_messages\<close>. The counters of a row are \<open>msg_successCount\<close>
  and \<open>msg_failureCount\<close>; the unprefixed names belong to \<open>SendResult\<close>.
\<close>

record NotificationMessage =
  msg_id :: string
  title :: string
  body :: string
  data :: "string option"
  category :: "string option"
  audienceType :: string
  status :: string
  scheduledFor :: "timestamp option"
  sentAt :: "timestamp option"
  createdBy :: "string option"
  msg_successCount :: "nat option"
  msg_failureCount :: "nat option"
  msg_createdAt :: timestamp
  msg_updatedAt :: timestamp

record SendResult =
  successCount :: nat
  failureCount :: nat
  errors :: "string list"

subsection \<open>Values exchanged with the gateway\<close>

text \<open>A parsed payload (\<^verbatim>\<open>Record<string, any>\<close>, the result of \<^verbatim>\<open>JSON.parse\<close>).\<close>

datatype json =
  JNull
  | JBool bool
  | JNum int
  | JStr string
  | JArr "json list"
  | JObj "(string \<times> json) list"

text \<open>JavaScript truthiness, as \<^verbatim>\<open>data || {}\<close> and \<^verbatim>\<open>message.data ? .. : ..\<close> test it.\<close>

fun truthy :: "json \<Rightarrow> bool" where
  "truthy JNull = False"
| "truthy (JBool b) = b"
| "truthy (JNum n) = (n \<noteq> 0)"
| "truthy (JStr s) = (s \<noteq> [])"
| "truthy (JArr xs) = True"
| "truthy (JObj kvs) = True"

record ExpoPushMessage =
  to :: string
  sound :: string
  pm_title :: string
  pm_body :: string
  pm_data :: json

text \<open>
  A ticket of the gateway: \<^verbatim>\<open>{status: "ok", id}\<close>, or
  \<^verbatim>\<open>{status: "error", message, details?: {error?}}\<close>. The second argument of
  \<open>ErrorTicket\<close> is \<^verbatim>\<open>ticket.details?.error\<close>, \<open>None\<close> when it is undefined.
\<close>

datatype ExpoPushTicket =
  SuccessTicket string
  | ErrorTicket string "string option"

text \<open>
  The exceptions that leave the dispatcher: the one of \<^verbatim>\<open>JSON.parse\<close>, the one of a
  property read from \<^verbatim>\<open>undefined\<close>, and the rejection of a storage call.
\<close>

datatype js_error = SyntaxError | TypeError | StorageError

text \<open>
  The collaborators. \<open>sendPushNotificationsAsync env n chunk\<close> is the answer of the gateway
  to the submission of \<open>chunk\<close> when \<open>n\<close> chunks have been submitted before: \<open>Inr\<close> the
  tickets, or \<open>Inl\<close> the text \<^verbatim>\<open>String(error)\<close> of what it throws. \<open>JSON_parse\<close> is
  \<open>None\<close> where \<^verbatim>\<open>JSON.parse\<close> throws. \<open>now\<close> is the reading of \<^verbatim>\<open>new Date()\<close>.
\<close>

record env =
  isExpoPushToken :: "string \<Rightarrow> bool"
  chunkLimit :: nat
  sendPushNotificationsAsync :: "nat \<Rightarrow> ExpoPushMessage list \<Rightarrow> string + ExpoPushTicket list"
  JSON_parse :: "string \<Rightarrow> json option"
  now :: timestamp

text \<open>
  The state: the two tables, and the chunks handed to the gateway so far, oldest first.
\<close>

record world =
  deviceRegistrations :: "DeviceRegistration list"
  notificationMessages :: "NotificationMessage list"
  submitted :: "ExpoPushMessage list list"

subsection \<open>Storage operations used by the dispatcher\<close>

definition getDevicesForUser :: "world \<Rightarrow> string \<Rightarrow> DeviceRegistration list" where
  "getDevicesForUser w uid =
     filter (\<lambda>d. userId d = uid \<and> enabled d = True) (deviceRegistrations w)"

definition getEnabledDevices :: "world \<Rightarrow> DeviceRegistration list" where
  "getEnabledDevices w = filter (\<lambda>d. enabled d = True) (deviceRegistrations w)"

definition unregisterDevice :: "env \<Rightarrow> world \<Rightarrow> string \<Rightarrow> world" where
  "unregisterDevice e w token =
     w\<lparr>deviceRegistrations :=
        map (\<lambda>d. if expoPushToken d = token
                  then d\<lparr>enabled := False, dev_updatedAt := now e\<rparr> else d)
            (deviceRegistrations w)\<rparr>"

definition updateDeviceLastNotified :: "env \<Rightarrow> world \<Rightarrow> string \<Rightarrow> world" where
  "updateDeviceLastNotified e w i =
     w\<lparr>deviceRegistrations :=
        map (\<lambda>d. if dev_id d = i
                  then d\<lparr>lastNotifiedAt := Some (now e), dev_updatedAt := now e\<rparr> else d)
            (deviceRegistrations w)\<rparr>"

definition getNotificationMessage :: "world \<Rightarrow> string \<Rightarrow> NotificationMessage option" where
  "getNotificationMessage w i =
     (case filter (\<lambda>m. msg_id m = i) (notificationMessages w) of
        [] \<Rightarrow> None
      | message # _ \<Rightarrow> Some message)"

definition getPendingNotifications :: "env \<Rightarrow> world \<Rightarrow> NotificationMessage list" where
  "getPendingNotifications e w =
     filter (\<lambda>m. status m = ''pending'' \<and>
                 (case scheduledFor m of None \<Rightarrow> True | Some t \<Rightarrow> t \<le> now e))
            (notificationMessages w)"

text \<open>
  \<^verbatim>\<open>updateNotificationStatus\<close> builds the object \<^verbatim>\<open>updates\<close> and sets it on the rows
  whose id matches; \<open>apply_updates\<close> is that object applied to one row.
\<close>

definition apply_updates ::
  "env \<Rightarrow> string \<Rightarrow> nat option \<Rightarrow> nat option \<Rightarrow> NotificationMessage \<Rightarrow> NotificationMessage" where
  "apply_updates e st sc fc m =
     m\<lparr>status := st,
       msg_updatedAt := now e,
       sentAt := (if st = ''sent'' then Some (now e) else sentAt m),
       msg_successCount := (case sc of None \<Rightarrow> msg_successCount m | Some c \<Rightarrow> Some c),
       msg_failureCount := (case fc of None \<Rightarrow> msg_failureCount m | Some c \<Rightarrow> Some c)\<rparr>"

definition updateNotificationStatus ::
  "env \<Rightarrow> world \<Rightarrow> string \<Rightarrow> string \<Rightarrow> nat option \<Rightarrow> nat option \<Rightarrow> world" where
  "updateNotificationStatus e w i st sc fc =
     w\<lparr>notificationMessages :=
        map (\<lambda>m. if msg_id m = i then apply_updates e st sc fc m else m)
            (notificationMessages w)\<rparr>"

subsection \<open>The gateway's batching\<close>

text \<open>
  Modelled from the spec: \<^verbatim>\<open>expo.chunkPushNotifications\<close> belongs to the gateway's
  client library, which is not among the sources. The spec describes it as
  \<^verbatim>\<open>chunk(messages)\<close>, giving batches that respect a fixed maximal batch size. The
  model fills a batch message by message, in order, and closes it when it holds
  \<open>limit\<close> messages; a last, shorter batch is kept when it is not empty.
\<close>

fun chunk_from :: "nat \<Rightarrow> 'a list \<Rightarrow> 'a list \<Rightarrow> 'a list list" where
  "chunk_from limit chunk [] = (if chunk = [] then [] else [chunk])"
| "chunk_from limit chunk (message # rest) =
     (if limit \<le> length (chunk @ [message])
      then (chunk @ [message]) # chunk_from limit [] rest
      else chunk_from limit (chunk @ [message]) rest)"

definition chunkPushNotifications :: "nat \<Rightarrow> 'a list \<Rightarrow> 'a list list" where
  "chunkPushNotifications limit messages = chunk_from limit [] messages"

subsection \<open>sendPushNotification\<close>

text \<open>Lines 19 to 28: the candidate endpoints of a call.\<close>

definition candidate_devices :: "world \<Rightarrow> string list option \<Rightarrow> DeviceRegistration list" where
  "candidate_devices w targetUserIds =
     (case targetUserIds of
        None \<Rightarrow> getEnabledDevices w
      | Some uids \<Rightarrow>
          if 0 < length uids then concat (map (getDevicesForUser w) uids)
          else getEnabledDevices w)"

text \<open>
  Lines 34 to 51: the loop that fills \<^verbatim>\<open>messages\<close> and \<^verbatim>\<open>validDevices\<close>, the two
  arrays being the two components of the result.
\<close>

definition push_message :: "string \<Rightarrow> string \<Rightarrow> json option \<Rightarrow> DeviceRegistration \<Rightarrow> ExpoPushMessage" where
  "push_message t b d device =
     \<lparr>to = expoPushToken device,
      sound = ''default'',
      pm_title = t,
      pm_body = b,
      pm_data = (case d of None \<Rightarrow> JObj []
                 | Some j \<Rightarrow> if truthy j then j else JObj [])\<rparr>"

fun collect_valid ::
  "env \<Rightarrow> string \<Rightarrow> string \<Rightarrow> json option \<Rightarrow> DeviceRegistration list
     \<Rightarrow> ExpoPushMessage list \<times> DeviceRegistration list" where
  "collect_valid e t b d [] = ([], [])"
| "collect_valid e t b d (device # rest) =
     (if \<not> isExpoPushToken e (expoPushToken device) then collect_valid e t b d rest
      else (push_message t b d device # fst (collect_valid e t b d rest),
            device # snd (collect_valid e t b d rest)))"

text \<open>
  Lines 63 to 72: every chunk is handed to the gateway. A chunk that is answered adds its
  tickets to \<^verbatim>\<open>tickets\<close>; a chunk whose submission throws adds the text of the error
  to \<^verbatim>\<open>errors\<close> and its length to \<^verbatim>\<open>failureCount\<close>. The counters and the error
  list of the run are carried in a \<open>SendResult\<close>.
\<close>

fun send_chunks ::
  "env \<Rightarrow> ExpoPushMessage list list \<Rightarrow> world \<Rightarrow> ExpoPushTicket list \<Rightarrow> SendResult
     \<Rightarrow> world \<times> ExpoPushTicket list \<times> SendResult" where
  "send_chunks e [] w tickets r = (w, tickets, r)"
| "send_chunks e (chunk # rest) w tickets r =
     (case sendPushNotificationsAsync e (length (submitted w)) chunk of
        Inr ticketChunk \<Rightarrow>
          send_chunks e rest (w\<lparr>submitted := submitted w @ [chunk]\<rparr>)
            (tickets @ ticketChunk) r
      | Inl error \<Rightarrow>
          send_chunks e rest (w\<lparr>submitted := submitted w @ [chunk]\<rparr>)
            tickets
            (r\<lparr>errors := errors r @ [error],
               failureCount := failureCount r + length chunk\<rparr>))"

text \<open>
  Lines 74 to 91: ticket \<open>i\<close> of \<^verbatim>\<open>tickets\<close> is handled with \<^verbatim>\<open>validDevices[i]\<close>.
  Reading past the end of \<^verbatim>\<open>validDevices\<close> gives \<^verbatim>\<open>undefined\<close>, and the first
  property read from it (\<^verbatim>\<open>device.id\<close> or \<^verbatim>\<open>device.expoPushToken\<close>) throws a
  TypeError. An error ticket whose \<^verbatim>\<open>details?.error\<close> is undefined or empty only
  counts as a failure, and does not read the device.
\<close>

definition device_at :: "DeviceRegistration list \<Rightarrow> nat \<Rightarrow> DeviceRegistration option" where
  "device_at validDevices i = (if i < length validDevices then Some (validDevices ! i) else None)"

fun handle_tickets ::
  "env \<Rightarrow> DeviceRegistration list \<Rightarrow> nat \<Rightarrow> ExpoPushTicket list \<Rightarrow> world \<Rightarrow> SendResult
     \<Rightarrow> (js_error + SendResult) \<times> world" where
  "handle_tickets e validDevices i [] w r = (Inr r, w)"
| "handle_tickets e validDevices i (SuccessTicket rid # rest) w r =
     (case device_at validDevices i of
        None \<Rightarrow> (Inl TypeError, w)
      | Some device \<Rightarrow>
          handle_tickets e validDevices (Suc i) rest
            (updateDeviceLastNotified e w (dev_id device))
            (r\<lparr>successCount := successCount r + 1\<rparr>))"
| "handle_tickets e validDevices i (ErrorTicket msg details # rest) w r =
     (case details of
        None \<Rightarrow>
          handle_tickets e validDevices (Suc i) rest w
            (r\<lparr>failureCount := failureCount r + 1\<rparr>)
      | Some reason \<Rightarrow>
          if reason = []
          then handle_tickets e validDevices (Suc i) rest w
                 (r\<lparr>failureCount := failureCount r + 1\<rparr>)
          else
            (case device_at validDevices i of
               None \<Rightarrow> (Inl TypeError, w)
             | Some device \<Rightarrow>
                 handle_tickets e validDevices (Suc i) rest
                   (if reason = ''DeviceNotRegistered''
                    then unregisterDevice e w (expoPushToken device) else w)
                   (r\<lparr>failureCount := failureCount r + 1,
                      errors := errors r @ [expoPushToken device @ '': '' @ reason]\<rparr>)))"

definition sendPushNotification ::
  "env \<Rightarrow> world \<Rightarrow> string \<Rightarrow> string \<Rightarrow> json option \<Rightarrow> string list option
     \<Rightarrow> (js_error + SendResult) \<times> world" where
  "sendPushNotification e w t b d targetUserIds =
     (let devices = candidate_devices w targetUserIds in
      if length devices = 0
      then (Inr \<lparr>successCount = 0, failureCount = 0,
                 errors = [''No registered devices found'']\<rparr>, w)
      else
        (let messages = fst (collect_valid e t b d devices);
             validDevices = snd (collect_valid e t b d devices) in
         if length messages = 0
         then (Inr \<lparr>successCount = 0, failureCount = length devices,
                    errors = [''No valid push tokens found'']\<rparr>, w)
         else
           (case send_chunks e (chunkPushNotifications (chunkLimit e) messages) w []
                   \<lparr>successCount = 0, failureCount = 0, errors = []\<rparr> of
              (w1, tickets, r) \<Rightarrow> handle_tickets e validDevices 0 tickets w1 r)))"

subsection \<open>sendNotificationMessage\<close>

text \<open>
  Line 109: \<^verbatim>\<open>message.data ? JSON.parse(message.data) : undefined\<close>. A null column and
  the empty string are both falsy and give \<^verbatim>\<open>undefined\<close>; any other text is parsed,
  and a text that is not JSON throws a SyntaxError.
\<close>

definition parse_data :: "env \<Rightarrow> NotificationMessage \<Rightarrow> js_error + json option" where
  "parse_data e message =
     (case data message of
        None \<Rightarrow> Inr None
      | Some txt \<Rightarrow>
          if txt = [] then Inr None
          else (case JSON_parse e txt of
                  None \<Rightarrow> Inl SyntaxError
                | Some j \<Rightarrow> Inr (Some j)))"

definition sendNotificationMessage ::
  "env \<Rightarrow> world \<Rightarrow> string \<Rightarrow> (js_error + SendResult) \<times> world" where
  "sendNotificationMessage e w messageId =
     (case getNotificationMessage w messageId of
        None \<Rightarrow>
          (Inr \<lparr>successCount = 0, failureCount = 0,
                errors = [''Notification message not found'']\<rparr>, w)
      | Some message \<Rightarrow>
          if status message \<noteq> ''pending''
          then (Inr \<lparr>successCount = 0, failureCount = 0,
                     errors = [''Message already '' @ status message]\<rparr>, w)
          else
            (let w1 = updateNotificationStatus e w messageId ''sending'' None None in
             case parse_data e message of
               Inl err \<Rightarrow> (Inl err, w1)
             | Inr d \<Rightarrow>
                 (case sendPushNotification e w1 (title message) (body message) d None of
                    (Inl err, w2) \<Rightarrow> (Inl err, w2)
                  | (Inr result, w2) \<Rightarrow>
                      (Inr result,
                       updateNotificationStatus e w2 messageId ''sent''
                         (Some (successCount result)) (Some (failureCount result))))))"

subsection \<open>Storage calls that are rejected\<close>

text \<open>
  The storage calls the dispatcher makes. An oracle of type \<open>storage_faults\<close> tells, for a
  call and the state in which it is made, whether the database rejects it; a rejected call
  changes nothing and its \<^verbatim>\<open>await\<close> throws.
\<close>

datatype storage_op =
  GetDevicesForUser string
  | GetEnabledDevices
  | UnregisterDevice string
  | UpdateDeviceLastNotified string
  | GetNotificationMessage string
  | GetPendingNotifications
  | UpdateNotificationStatus string string

type_synonym storage_faults = "storage_op \<Rightarrow> world \<Rightarrow> bool"

text \<open>
  Lines 19 to 28 with a storage that can fail. \<^verbatim>\<open>Promise.all\<close> rejects as soon as one
  of the reads is rejected.
\<close>

definition candidate_devices_sf ::
  "storage_faults \<Rightarrow> world \<Rightarrow> string list option \<Rightarrow> js_error + DeviceRegistration list" where
  "candidate_devices_sf sf w targetUserIds =
     (case targetUserIds of
        None \<Rightarrow>
          if sf GetEnabledDevices w then Inl StorageError else Inr (getEnabledDevices w)
      | Some uids \<Rightarrow>
          if 0 < length uids
          then (if list_ex (\<lambda>uid. sf (GetDevicesForUser uid) w) uids then Inl StorageError
                else Inr (concat (map (getDevicesForUser w) uids)))
          else (if sf GetEnabledDevices w then Inl StorageError
                else Inr (getEnabledDevices w)))"

text \<open>Lines 74 to 91 with a storage that can fail in its two writes.\<close>

fun handle_tickets_sf ::
  "storage_faults \<Rightarrow> env \<Rightarrow> DeviceRegistration list \<Rightarrow> nat \<Rightarrow> ExpoPushTicket list \<Rightarrow> world
     \<Rightarrow> SendResult \<Rightarrow> (js_error + SendResult) \<times> world" where
  "handle_tickets_sf sf e validDevices i [] w r = (Inr r, w)"
| "handle_tickets_sf sf e validDevices i (SuccessTicket rid # rest) w r =
     (case device_at validDevices i of
        None \<Rightarrow> (Inl TypeError, w)
      | Some device \<Rightarrow>
          if sf (UpdateDeviceLastNotified (dev_id device)) w then (Inl StorageError, w)
          else handle_tickets_sf sf e validDevices (Suc i) rest
                 (updateDeviceLastNotified e w (dev_id device))
                 (r\<lparr>successCount := successCount r + 1\<rparr>))"
| "handle_tickets_sf sf e validDevices i (ErrorTicket msg details # rest) w r =
     (case details of
        None \<Rightarrow>
          handle_tickets_sf sf e validDevices (Suc i) rest w
            (r\<lparr>failureCount := failureCount r + 1\<rparr>)
      | Some reason \<Rightarrow>
          if reason = []
          then handle_tickets_sf sf e validDevices (Suc i) rest w
                 (r\<lparr>failureCount := failureCount r + 1\<rparr>)
          else
            (case device_at validDevices i of
               None \<Rightarrow> (Inl TypeError, w)
             | Some device \<Rightarrow>
                 if reason = ''DeviceNotRegistered''
                 then (if sf (UnregisterDevice (expoPushToken device)) w
                       then (Inl StorageError, w)
                       else handle_tickets_sf sf e validDevices (Suc i) rest
                              (unregisterDevice e w (expoPushToken device))
                              (r\<lparr>failureCount := failureCount r + 1,
                                 errors := errors r @ [expoPushToken device @ '': '' @ reason]\<rparr>))
                 else handle_tickets_sf sf e validDevices (Suc i) rest w
                        (r\<lparr>failureCount := failureCount r + 1,
                           errors := errors r @ [expoPushToken device @ '': '' @ reason]\<rparr>)))"

definition sendPushNotification_sf ::
  "storage_faults \<Rightarrow> env \<Rightarrow> world \<Rightarrow> string \<Rightarrow> string \<Rightarrow> json option \<Rightarrow> string list option
     \<Rightarrow> (js_error + SendResult) \<times> world" where
  "sendPushNotification_sf sf e w t b d targetUserIds =
     (case candidate_devices_sf sf w targetUserIds of
        Inl err \<Rightarrow> (Inl err, w)
      | Inr devices \<Rightarrow>
          if length devices = 0
          then (Inr \<lparr>successCount = 0, failureCount = 0,
                     errors = [''No registered devices found'']\<rparr>, w)
          else
            (let messages = fst (collect_valid e t b d devices);
                 validDevices = snd (collect_valid e t b d devices) in
             if length messages = 0
             then (Inr \<lparr>successCount = 0, failureCount = length devices,
                        errors = [''No valid push tokens found'']\<rparr>, w)
             else
               (case send_chunks e (chunkPushNotifications (chunkLimit e) messages) w []
                       \<lparr>successCount = 0, failureCount = 0, errors = []\<rparr> of
                  (w1, tickets, r) \<Rightarrow> handle_tickets_sf sf e validDevices 0 tickets w1 r)))"

text \<open>Lines 96 to 120 with a storage that can fail in its read and in its two updates.\<close>

definition sendNotificationMessage_sf ::
  "storage_faults \<Rightarrow> env \<Rightarrow> world \<Rightarrow> string \<Rightarrow> (js_error + SendResult) \<times> world" where
  "sendNotificationMessage_sf sf e w messageId =
     (if sf (GetNotificationMessage messageId) w then (Inl StorageError, w)
      else
        (case getNotificationMessage w messageId of
           None \<Rightarrow>
             (Inr \<lparr>successCount = 0, failureCount = 0,
                   errors = [''Notification message not found'']\<rparr>, w)
         | Some message \<Rightarrow>
             if status message \<noteq> ''pending''
             then (Inr \<lparr>successCount = 0, failureCount = 0,
                        errors = [''Message already '' @ status message]\<rparr>, w)
             else if sf (UpdateNotificationStatus messageId ''sending'') w
             then (Inl StorageError, w)
             else
               (let w1 = updateNotificationStatus e w messageId ''sending'' None None in
                case parse_data e message of
                  Inl err \<Rightarrow> (Inl err, w1)
                | Inr d \<Rightarrow>
                    (case sendPushNotification_sf sf e w1 (title message) (body message) d None of
                       (Inl err, w2) \<Rightarrow> (Inl err, w2)
                     | (Inr result, w2) \<Rightarrow>
                         if sf (UpdateNotificationStatus messageId ''sent'') w2
                         then (Inl StorageError, w2)
                         else (Inr result,
                               updateNotificationStatus e w2 messageId ''sent''
                                 (Some (successCount result)) (Some (failureCount result)))))))"

subsection \<open>processPendingNotifications\<close>

text \<open>
  Lines 125 to 132: the body of the loop for one message. The attempt is inside the
  \<^verbatim>\<open>try\<close>; whatever it throws is caught. The update of line 130 is inside the
  \<^verbatim>\<open>catch\<close> and nothing catches what it throws: if it is rejected, the exception
  leaves the loop. The first component of the result is \<open>None\<close> when the body ends
  normally and the exception otherwise.
\<close>

definition process_message ::
  "storage_faults \<Rightarrow> env \<Rightarrow> world \<Rightarrow> NotificationMessage \<Rightarrow> js_error option \<times> world" where
  "process_message sf e w message =
     (case sendNotificationMessage_sf sf e w (msg_id message) of
        (Inr result, w1) \<Rightarrow> (None, w1)
      | (Inl err, w1) \<Rightarrow>
          if sf (UpdateNotificationStatus (msg_id message) ''failed'') w1
          then (Some StorageError, w1)
          else (None, updateNotificationStatus e w1 (msg_id message) ''failed'' None None))"

text \<open>The loop over the messages that were due when the run began; an exception ends it.\<close>

fun process_all ::
  "storage_faults \<Rightarrow> env \<Rightarrow> NotificationMessage list \<Rightarrow> world \<Rightarrow> js_error option \<times> world" where
  "process_all sf e [] w = (None, w)"
| "process_all sf e (message # rest) w =
     (case process_message sf e w message of
        (None, w1) \<Rightarrow> process_all sf e rest w1
      | (Some err, w1) \<Rightarrow> (Some err, w1))"

definition processPendingNotifications ::
  "storage_faults \<Rightarrow> env \<Rightarrow> world \<Rightarrow> js_error option \<times> world" where
  "processPendingNotifications sf e w =
     (if sf GetPendingNotifications w then (Some StorageError, w)
      else process_all sf e (getPendingNotifications e w) w)"

subsection \<open>What the gateway answers during a run\<close>

text \<open>\<^verbatim>\<open>ticket.status === "ok"\<close>.\<close>

fun is_ok :: "ExpoPushTicket \<Rightarrow> bool" where
  "is_ok (SuccessTicket rid) = True"
| "is_ok (ErrorTicket msg details) = False"

text \<open>
  The chunks of a run are submitted one after the other, the first one when \<open>n\<close> chunks
  have been submitted before. \<open>returned_tickets\<close> are the tickets of the chunks that are
  answered, in order; \<open>thrown\<close> lists the chunks whose submission throws, each with the
  text of its error.
\<close>

fun returned_tickets :: "env \<Rightarrow> nat \<Rightarrow> ExpoPushMessage list list \<Rightarrow> ExpoPushTicket list" where
  "returned_tickets e n [] = []"
| "returned_tickets e n (chunk # rest) =
     (case sendPushNotificationsAsync e n chunk of
        Inr ticketChunk \<Rightarrow> ticketChunk @ returned_tickets e (Suc n) rest
      | Inl error \<Rightarrow> returned_tickets e (Suc n) rest)"

fun thrown :: "env \<Rightarrow> nat \<Rightarrow> ExpoPushMessage list list \<Rightarrow> (ExpoPushMessage list \<times> string) list" where
  "thrown e n [] = []"
| "thrown e n (chunk # rest) =
     (case sendPushNotificationsAsync e n chunk of
        Inr ticketChunk \<Rightarrow> thrown e (Suc n) rest
      | Inl error \<Rightarrow> (chunk, error) # thrown e (Suc n) rest)"

text \<open>Every row of the registry that carries the token is disabled.\<close>

definition token_disabled :: "world \<Rightarrow> string \<Rightarrow> bool" where
  "token_disabled w token =
     list_all (\<lambda>d. expoPushToken d = token \<longrightarrow> \<not> enabled d) (deviceRegistrations w)"

subsection \<open>What a run should record\<close>

text \<open>
  The reason a ticket carries: \<^verbatim>\<open>ticket.details?.error\<close> of a ticket that is not ok, when
  it is defined and not empty.
\<close>

fun ticket_reason :: "ExpoPushTicket \<Rightarrow> string option" where
  "ticket_reason (SuccessTicket rid) = None"
| "ticket_reason (ErrorTicket msg None) = None"
| "ticket_reason (ErrorTicket msg (Some reason)) = (if reason = [] then None else Some reason)"

text \<open>
  Each ticket of the answered chunks with the token at its position in its own chunk; a
  chunk whose submission throws contributes no pair.
\<close>

fun answered_pairs ::
  "env \<Rightarrow> nat \<Rightarrow> ExpoPushMessage list list \<Rightarrow> (ExpoPushTicket \<times> string) list" where
  "answered_pairs e n [] = []"
| "answered_pairs e n (chunk # rest) =
     (case sendPushNotificationsAsync e n chunk of
        Inr ticketChunk \<Rightarrow> zip ticketChunk (map to chunk) @ answered_pairs e (Suc n) rest
      | Inl error \<Rightarrow> answered_pairs e (Suc n) rest)"

text \<open>
  For a list of tickets paired with tokens: the error texts, one for each ticket that
  carries a reason, and the tokens to unregister, one for each ticket whose reason is
  DeviceNotRegistered.
\<close>

fun recorded_errors :: "(ExpoPushTicket \<times> string) list \<Rightarrow> string list" where
  "recorded_errors [] = []"
| "recorded_errors ((ticket, token) # rest) =
     (case ticket_reason ticket of
        None \<Rightarrow> recorded_errors rest
      | Some reason \<Rightarrow> (token @ '': '' @ reason) # recorded_errors rest)"

fun unregistered_tokens :: "(ExpoPushTicket \<times> string) list \<Rightarrow> string list" where
  "unregistered_tokens [] = []"
| "unregistered_tokens ((ticket, token) # rest) =
     (if ticket_reason ticket = Some ''DeviceNotRegistered''
      then token # unregistered_tokens rest
      else unregistered_tokens rest)"

text \<open>
  The registry seen through the two columns the hygiene loop is about: for each row, in
  table order, its token and whether it is enabled; and the same list after the rows of
  the given tokens have been disabled.
\<close>

definition enabled_by_token :: "world \<Rightarrow> (string \<times> bool) list" where
  "enabled_by_token w = map (\<lambda>d. (expoPushToken d, enabled d)) (deviceRegistrations w)"

definition disable_tokens :: "string list \<Rightarrow> (string \<times> bool) list \<Rightarrow> (string \<times> bool) list" where
  "disable_tokens tokens rows = map (\<lambda>(token, en). (token, en \<and> token \<notin> set tokens)) rows"

text \<open>
  The outcome of every submitted message, chunk by chunk in the order of submission: the
  token it was sent to, and whether the ticket at its position in the answer to its chunk
  is ok. The messages of a chunk whose submission throws all have the outcome \<open>False\<close>.
\<close>

fun delivery_outcomes ::
  "env \<Rightarrow> nat \<Rightarrow> ExpoPushMessage list list \<Rightarrow> (string \<times> bool) list" where
  "delivery_outcomes e n [] = []"
| "delivery_outcomes e n (chunk # rest) =
     (case sendPushNotificationsAsync e n chunk of
        Inr ticketChunk \<Rightarrow>
          zip (map to chunk) (map is_ok ticketChunk) @ delivery_outcomes e (Suc n) rest
      | Inl error \<Rightarrow>
          map (\<lambda>m. (to m, False)) chunk @ delivery_outcomes e (Suc n) rest)"

subsection \<open>Example data\<close>

definition example_device :: "string \<Rightarrow> string \<Rightarrow> string \<Rightarrow> DeviceRegistration" where
  "example_device i u token =
     \<lparr>dev_id = i, userId = u, expoPushToken = token, platform = ''ios'',
      deviceModel = None, osVersion = None, appVersion = None, enabled = True,
      lastNotifiedAt = None, dev_createdAt = 1, dev_updatedAt = 1\<rparr>"

definition example_message :: "string \<Rightarrow> string \<Rightarrow> string option \<Rightarrow> NotificationMessage" where
  "example_message i st payload =
     \<lparr>msg_id = i, title = ''Hi'', body = ''Test'', data = payload, category = None,
      audienceType = ''all'', status = st, scheduledFor = None, sentAt = None,
      createdBy = None, msg_successCount = Some 0, msg_failureCount = Some 0,
      msg_createdAt = 1, msg_updatedAt = 1\<rparr>"

text \<open>
  An environment for the examples: a token is well formed when it is not \<open>''bad''\<close>, the
  only text the parser accepts is \<open>''{}''\<close>, and the clock reads 7.
\<close>

definition example_env ::
  "nat \<Rightarrow> (nat \<Rightarrow> ExpoPushMessage list \<Rightarrow> string + ExpoPushTicket list) \<Rightarrow> env" where
  "example_env limit gateway =
     \<lparr>isExpoPushToken = (\<lambda>token. token \<noteq> ''bad''),
      chunkLimit = limit,
      sendPushNotificationsAsync = gateway,
      JSON_parse = (\<lambda>txt. if txt = ''{}'' then Some (JObj []) else None),
      now = 7\<rparr>"

text \<open>Gateways: one that accepts everything, and one whose first submission throws.\<close>

definition accept_all :: "nat \<Rightarrow> ExpoPushMessage list \<Rightarrow> string + ExpoPushTicket list" where
  "accept_all n chunk = Inr (map (\<lambda>m. SuccessTicket ''receipt'') chunk)"

definition first_throws :: "nat \<Rightarrow> ExpoPushMessage list \<Rightarrow> string + ExpoPushTicket list" where
  "first_throws n chunk =
     (if n = 0 then Inl ''Error: network''
      else Inr (map (\<lambda>m. SuccessTicket ''receipt'') chunk))"

definition three_devices :: "DeviceRegistration list" where
  "three_devices =
     [example_device ''d1'' ''u1'' ''t1'',
      example_device ''d2'' ''u1'' ''t2'',
      example_device ''d3'' ''u2'' ''t3'']"

definition no_devices_world :: world where
  "no_devices_world =
     \<lparr>deviceRegistrations = [(example_device ''d1'' ''u1'' ''t1'')\<lparr>enabled := False\<rparr>],
      notificationMessages = [example_message ''m1'' ''pending'' None],
      submitted = []\<rparr>"

definition sent_message_world :: world where
  "sent_message_world =
     \<lparr>deviceRegistrations = three_devices,
      notificationMessages = [example_message ''m1'' ''sent'' None],
      submitted = []\<rparr>"

definition bad_json_world :: world where
  "bad_json_world =
     \<lparr>deviceRegistrations = three_devices,
      notificationMessages = [example_message ''m1'' ''pending'' (Some ''{bad'')],
      submitted = []\<rparr>"

text \<open>A gateway that accepts the token \<open>''t1''\<close> and reports every other device as unregistered.\<close>

definition only_t1 :: "nat \<Rightarrow> ExpoPushMessage list \<Rightarrow> string + ExpoPushTicket list" where
  "only_t1 n chunk =
     Inr (map (\<lambda>m. if to m = ''t1'' then SuccessTicket ''receipt''
                    else ErrorTicket ''not registered'' (Some ''DeviceNotRegistered'')) chunk)"

definition pending_world :: world where
  "pending_world =
     \<lparr>deviceRegistrations = three_devices,
      notificationMessages = [example_message ''m1'' ''pending'' (Some ''{}'')],
      submitted = []\<rparr>"

definition three_devices_world :: world where
  "three_devices_world =
     \<lparr>deviceRegistrations = three_devices, notificationMessages = [], submitted = []\<rparr>"

text \<open>Four endpoints, the second with a token the gateway's validator rejects.\<close>

definition four_devices_world :: world where
  "four_devices_world =
     \<lparr>deviceRegistrations =
        [example_device ''d1'' ''u1'' ''t1'',
         example_device ''d2'' ''u1'' ''bad'',
         example_device ''d3'' ''u2'' ''t3'',
         example_device ''d4'' ''u3'' ''t4''],
      notificationMessages = [], submitted = []\<rparr>"

text \<open>A gateway whose error tickets carry no \<^verbatim>\<open>details\<close>.\<close>

definition no_details :: "nat \<Rightarrow> ExpoPushMessage list \<Rightarrow> string + ExpoPushTicket list" where
  "no_details n chunk = Inr (map (\<lambda>m. ErrorTicket ''failed'' None) chunk)"

text \<open>Three due messages, the second with a payload that is not JSON.\<close>

definition three_messages_world :: world where
  "three_messages_world =
     \<lparr>deviceRegistrations = three_devices,
      notificationMessages =
        [example_message ''m1'' ''pending'' (Some ''{}''),
         example_message ''m2'' ''pending'' (Some ''{bad''),
         example_message ''m3'' ''pending'' None],
      submitted = []\<rparr>"

text \<open>
  A gateway that accepts \<open>''t1''\<close>, answers for \<open>''t2''\<close> with an error ticket without
  details, and reports every other device as unregistered.
\<close>

definition mixed_tickets :: "nat \<Rightarrow> ExpoPushMessage list \<Rightarrow> string + ExpoPushTicket list" where
  "mixed_tickets n chunk =
     Inr (map (\<lambda>m. if to m = ''t1'' then SuccessTicket ''receipt''
                    else if to m = ''t2'' then ErrorTicket ''failed'' None
                    else ErrorTicket ''not registered'' (Some ''DeviceNotRegistered'')) chunk)"

text \<open>A gateway that accepts the first chunk and rejects every message of the later ones.\<close>

definition second_rejects :: "nat \<Rightarrow> ExpoPushMessage list \<Rightarrow> string + ExpoPushTicket list" where
  "second_rejects n chunk =
     (if n = 0 then Inr (map (\<lambda>m. SuccessTicket ''receipt'') chunk)
      else Inr (map (\<lambda>m. ErrorTicket ''too many'' (Some ''MessageRateExceeded'')) chunk))"

text \<open>A pending message whose stored payload is the empty text.\<close>

definition empty_payload_world :: world where
  "empty_payload_world =
     \<lparr>deviceRegistrations = three_devices,
      notificationMessages = [example_message ''m1'' ''pending'' (Some [])],
      submitted = []\<rparr>"

text \<open>
  Storage oracles: one that rejects nothing, one that rejects the update that marks the
  message \<open>''m2''\<close> as failed, and one that rejects the update that marks it as sending.
\<close>

definition no_faults :: storage_faults where
  "no_faults op w = False"

definition failed_update_rejected :: storage_faults where
  "failed_update_rejected op w = (op = UpdateNotificationStatus ''m2'' ''failed'')"

definition sending_update_rejected :: storage_faults where
  "sending_update_rejected op w = (op = UpdateNotificationStatus ''m2'' ''sending'')"

section \<open>Properties\<close>

text \<open>The definitions to unfold when a run is evaluated on the example data.\<close>

lemmas example_defs =
  example_env_def example_device_def three_devices_def three_devices_world_def
  four_devices_world_def accept_all_def first_throws_def only_t1_def
  no_details_def mixed_tickets_def second_rejects_def empty_payload_world_def

lemmas run_defs =
  sendPushNotification_def candidate_devices_def getEnabledDevices_def getDevicesForUser_def
  chunkPushNotifications_def push_message_def device_at_def
  updateDeviceLastNotified_def unregisterDevice_def

lemmas message_defs =
  sendNotificationMessage_def sendNotificationMessage_sf_def sendPushNotification_sf_def
  candidate_devices_sf_def process_message_def processPendingNotifications_def
  parse_data_def getNotificationMessage_def
  getPendingNotifications_def updateNotificationStatus_def apply_updates_def
  example_message_def three_messages_world_def
  no_faults_def failed_update_rejected_def sending_update_rejected_def

subsection \<open>The message table is touched by status updates only\<close>

lemma notificationMessages_send_chunks:
  "send_chunks e cs w tk r = (w', tk', r') \<Longrightarrow> notificationMessages w' = notificationMessages w"
  by (induction cs arbitrary: w tk r) (auto split: sum.splits)

lemma notificationMessages_updateDeviceLastNotified [simp]:
  "notificationMessages (updateDeviceLastNotified e w i) = notificationMessages w"
  by (simp add: updateDeviceLastNotified_def)

lemma notificationMessages_unregisterDevice [simp]:
  "notificationMessages (unregisterDevice e w tok) = notificationMessages w"
  by (simp add: unregisterDevice_def)

lemma notificationMessages_handle_tickets:
  "handle_tickets e vd i ts w r = (res, w') \<Longrightarrow> notificationMessages w' = notificationMessages w"
  by (induction e vd i ts w r rule: handle_tickets.induct)
     (auto split: option.splits if_splits)

text \<open>Past the two early returns, a call is the chunk loop followed by the ticket loop.\<close>

lemma sendPushNotification_chunked:
  assumes "fst (collect_valid e t b d (candidate_devices w tg)) \<noteq> []"
  shows "sendPushNotification e w t b d tg =
    (case send_chunks e (chunkPushNotifications (chunkLimit e)
            (fst (collect_valid e t b d (candidate_devices w tg)))) w []
            \<lparr>successCount = 0, failureCount = 0, errors = []\<rparr> of
       (w1, tickets, r) \<Rightarrow>
          handle_tickets e (snd (collect_valid e t b d (candidate_devices w tg))) 0 tickets w1 r)"
proof -
  have "candidate_devices w tg \<noteq> []" using assms by auto
  with assms show ?thesis by (simp add: sendPushNotification_def Let_def)
qed

lemma notificationMessages_sendPushNotification:
  assumes "sendPushNotification e w t b d tg = (res, w')"
  shows "notificationMessages w' = notificationMessages w"
proof (cases "fst (collect_valid e t b d (candidate_devices w tg)) = []")
  case True
  with assms show ?thesis
    by (auto simp: sendPushNotification_def Let_def split: if_splits)
next
  case False
  obtain w1 tk r where sc: "send_chunks e (chunkPushNotifications (chunkLimit e)
            (fst (collect_valid e t b d (candidate_devices w tg)))) w []
            \<lparr>successCount = 0, failureCount = 0, errors = []\<rparr> = (w1, tk, r)"
    by (metis prod_cases3)
  with False assms
  have "handle_tickets e (snd (collect_valid e t b d (candidate_devices w tg))) 0 tk w1 r = (res, w')"
    by (simp add: sendPushNotification_chunked)
  then have "notificationMessages w' = notificationMessages w1"
    by (rule notificationMessages_handle_tickets)
  with notificationMessages_send_chunks [OF sc] show ?thesis by simp
qed

lemma msg_id_apply_updates [simp]: "msg_id (apply_updates e st sc fc m) = msg_id m"
  by (simp add: apply_updates_def)

lemma filter_id_map_updates:
  "filter (\<lambda>m. msg_id m = j)
     (map (\<lambda>m. if msg_id m = i then apply_updates e st sc fc m else m) ms)
   = map (\<lambda>m. if msg_id m = i then apply_updates e st sc fc m else m)
       (filter (\<lambda>m. msg_id m = j) ms)"
  by (induction ms) simp_all

lemma getNotificationMessage_updated:
  "getNotificationMessage (updateNotificationStatus e w i st sc fc) j =
     map_option (\<lambda>m. if j = i then apply_updates e st sc fc m else m)
       (getNotificationMessage w j)"
proof -
  have "\<And>x. x \<in> set (filter (\<lambda>m. msg_id m = j) (notificationMessages w)) \<Longrightarrow> msg_id x = j"
    by simp
  then show ?thesis
    by (cases "filter (\<lambda>m. msg_id m = j) (notificationMessages w)")
       (auto simp: getNotificationMessage_def updateNotificationStatus_def filter_id_map_updates)
qed

lemma getNotificationMessage_cong:
  "notificationMessages w' = notificationMessages w \<Longrightarrow>
   getNotificationMessage w' j = getNotificationMessage w j"
  by (simp add: getNotificationMessage_def)

subsection \<open>Early returns\<close>

text \<open>
  Claim C8. When the candidate endpoints of a call are none, sendPushNotification returns
  the result with both counters 0 and the single error text "No registered devices found".
  It returns normally (no exception), and the state it returns is the state it was given:
  no row of either table has changed and nothing was submitted to the gateway.
\<close>

theorem empty_audience_is_a_normal_result:
  assumes "candidate_devices w targetUserIds = []"
  shows "sendPushNotification e w t b d targetUserIds =
           (Inr \<lparr>successCount = 0, failureCount = 0,
                 errors = [''No registered devices found'']\<rparr>, w)"
  using assms by (simp add: sendPushNotification_def)

theorem empty_audience_witness:
  "candidate_devices no_devices_world (Some [''u1'']) = [] \<and>
   sendPushNotification (example_env 100 accept_all) no_devices_world ''Hi'' ''Test'' None
       (Some [''u1''])
     = (Inr \<lparr>successCount = 0, failureCount = 0, errors = [''No registered devices found'']\<rparr>,
        no_devices_world)"
proof -
  have h: "candidate_devices no_devices_world (Some [''u1'']) = []"
    by (simp add: candidate_devices_def getDevicesForUser_def no_devices_world_def
        example_device_def)
  show ?thesis
    using h empty_audience_is_a_normal_result [OF h] by simp
qed

text \<open>
  Claim C4. For a stored message whose status is not pending, sendNotificationMessage
  returns the result with both counters 0 and the single error text "Message already "
  followed by the status, and the state it returns is the state it was given: no status
  update, no registry change, no submission to the gateway.
\<close>

theorem non_pending_message_is_rejected:
  assumes "getNotificationMessage w messageId = Some message"
    and "status message \<noteq> ''pending''"
  shows "sendNotificationMessage e w messageId =
           (Inr \<lparr>successCount = 0, failureCount = 0,
                 errors = [''Message already '' @ status message]\<rparr>, w)"
  using assms by (simp add: sendNotificationMessage_def)

theorem non_pending_message_witness:
  "sendNotificationMessage (example_env 100 accept_all) sent_message_world ''m1'' =
     (Inr \<lparr>successCount = 0, failureCount = 0, errors = [''Message already sent'']\<rparr>,
      sent_message_world)"
proof -
  have g: "getNotificationMessage sent_message_world ''m1'' =
             Some (example_message ''m1'' ''sent'' None)"
    by (simp add: getNotificationMessage_def sent_message_world_def example_message_def)
  have s: "status (example_message ''m1'' ''sent'' None) \<noteq> ''pending''"
    by (simp add: example_message_def)
  show ?thesis
    using non_pending_message_is_rejected [OF g s, of "example_env 100 accept_all"]
    by (simp add: example_message_def)
qed

subsection \<open>A payload that does not parse\<close>

text \<open>
  Claim C10 as stated covers every stored payload that is present and is not valid JSON.
  The empty text is such a payload: the column is not null and the parser rejects it. Line
  109 treats it as absent, nothing is parsed, and the message ends sent.
\<close>

theorem empty_payload_counterexample:
  "data (example_message ''m1'' ''pending'' (Some [])) = Some [] \<and>
   JSON_parse (example_env 100 accept_all) [] = None \<and>
   fst (sendNotificationMessage (example_env 100 accept_all) empty_payload_world ''m1'')
     = Inr \<lparr>successCount = 3, failureCount = 0, errors = []\<rparr> \<and>
   map status
     (notificationMessages
        (snd (sendNotificationMessage (example_env 100 accept_all) empty_payload_world ''m1'')))
     = [''sent'']"
  by (simp add: message_defs run_defs example_defs Let_def)

text \<open>
  Claim C10, amended. A pending message whose stored data is present and not empty, and
  is not valid JSON: sendNotificationMessage first sets the status to sending, then the
  SyntaxError of the parser leaves the call. No further update is made, so the state at
  the end is the one reached by that first update, and the status of the message in it
  is sending. (An empty payload is treated as absent by line 109 and is not parsed.)
\<close>

theorem invalid_json_leaves_message_sending:
  assumes "getNotificationMessage w messageId = Some message"
    and "status message = ''pending''"
    and "data message = Some txt"
    and "txt \<noteq> []"
    and "JSON_parse e txt = None"
  shows "\<exists>w' message'.
           sendNotificationMessage e w messageId = (Inl SyntaxError, w') \<and>
           w' = updateNotificationStatus e w messageId ''sending'' None None \<and>
           getNotificationMessage w' messageId = Some message' \<and>
           status message' = ''sending''"
  using assms
  by (simp add: sendNotificationMessage_def parse_data_def getNotificationMessage_updated
      apply_updates_def)

theorem invalid_json_witness:
  "\<exists>w' message'.
     sendNotificationMessage (example_env 100 accept_all) bad_json_world ''m1''
       = (Inl SyntaxError, w') \<and>
     submitted w' = [] \<and>
     getNotificationMessage w' ''m1'' = Some message' \<and> status message' = ''sending''"
proof -
  have g: "getNotificationMessage bad_json_world ''m1'' =
             Some (example_message ''m1'' ''pending'' (Some ''{bad''))"
    by (simp add: getNotificationMessage_def bad_json_world_def example_message_def)
  have s: "status (example_message ''m1'' ''pending'' (Some ''{bad'')) = ''pending''"
    and d: "data (example_message ''m1'' ''pending'' (Some ''{bad'')) = Some ''{bad''"
    by (simp_all add: example_message_def)
  have n: "''{bad'' \<noteq> []" by simp
  have p: "JSON_parse (example_env 100 accept_all) ''{bad'' = None"
    by (simp add: example_env_def)
  show ?thesis
    using invalid_json_leaves_message_sending [OF g s d n p]
    by (auto simp: updateNotificationStatus_def bad_json_world_def)
qed

subsection \<open>A processed message is sent\<close>

text \<open>
  Claim C5. sendNotificationMessage on a pending message whose payload parses and whose
  inner sendPushNotification returns a result: the call returns that result, and in the
  state it leaves the message has status sent and carries the success and failure counts
  of the result. Nothing depends on the failure count being 0: a partial or total delivery
  failure gives sent as well, never failed.
\<close>

theorem processed_message_is_sent:
  assumes "getNotificationMessage w messageId = Some message"
    and "status message = ''pending''"
    and "parse_data e message = Inr payload"
    and "sendPushNotification e (updateNotificationStatus e w messageId ''sending'' None None)
           (title message) (body message) payload None = (Inr result, w2)"
  shows "\<exists>w' message'.
           sendNotificationMessage e w messageId = (Inr result, w') \<and>
           getNotificationMessage w' messageId = Some message' \<and>
           status message' = ''sent'' \<and>
           msg_successCount message' = Some (successCount result) \<and>
           msg_failureCount message' = Some (failureCount result)"
proof -
  let ?w1 = "updateNotificationStatus e w messageId ''sending'' None None"
  let ?w' = "updateNotificationStatus e w2 messageId ''sent''
               (Some (successCount result)) (Some (failureCount result))"
  have run: "sendNotificationMessage e w messageId = (Inr result, ?w')"
    using assms by (simp add: sendNotificationMessage_def)
  have "notificationMessages w2 = notificationMessages ?w1"
    using assms(4) by (rule notificationMessages_sendPushNotification)
  then have "getNotificationMessage w2 messageId = getNotificationMessage ?w1 messageId"
    by (rule getNotificationMessage_cong)
  then have "getNotificationMessage w2 messageId
               = Some (apply_updates e ''sending'' None None message)"
    using assms(1) by (simp add: getNotificationMessage_updated)
  then have "getNotificationMessage ?w' messageId
               = Some (apply_updates e ''sent'' (Some (successCount result))
                         (Some (failureCount result))
                         (apply_updates e ''sending'' None None message))"
    by (simp add: getNotificationMessage_updated)
  with run show ?thesis by (simp add: apply_updates_def)
qed

theorem processed_message_witness:
  "\<exists>result w' message'.
     sendNotificationMessage (example_env 100 only_t1) pending_world ''m1'' = (Inr result, w') \<and>
     successCount result = 1 \<and> failureCount result = 2 \<and>
     getNotificationMessage w' ''m1'' = Some message' \<and>
     status message' = ''sent'' \<and>
     msg_successCount message' = Some 1 \<and> msg_failureCount message' = Some 2"
proof -
  let ?m = "example_message ''m1'' ''pending'' (Some ''{}'')"
  let ?e = "example_env 100 only_t1"
  have g: "getNotificationMessage pending_world ''m1'' = Some ?m"
    by (simp add: getNotificationMessage_def pending_world_def example_message_def)
  have s: "status ?m = ''pending''"
    by (simp add: example_message_def)
  have p: "parse_data ?e ?m = Inr (Some (JObj []))"
    by (simp add: parse_data_def example_message_def example_env_def)
  have "\<exists>result w2.
          sendPushNotification ?e (updateNotificationStatus ?e pending_world ''m1'' ''sending'' None None)
            (title ?m) (body ?m) (Some (JObj [])) None = (Inr result, w2) \<and>
          successCount result = 1 \<and> failureCount result = 2"
    by (simp add: sendPushNotification_def candidate_devices_def getEnabledDevices_def
        updateNotificationStatus_def pending_world_def three_devices_def example_device_def
        example_env_def chunkPushNotifications_def push_message_def only_t1_def device_at_def
        updateDeviceLastNotified_def unregisterDevice_def)
  then obtain result w2 where
    sp: "sendPushNotification ?e (updateNotificationStatus ?e pending_world ''m1'' ''sending'' None None)
            (title ?m) (body ?m) (Some (JObj [])) None = (Inr result, w2)"
    and c: "successCount result = 1" "failureCount result = 2"
    by blast
  show ?thesis
    using processed_message_is_sent [OF g s p sp] c by auto
qed

subsection \<open>The chunk and the ticket iteration of sendPushNotification\<close>

lemma snd_collect_valid:
  "snd (collect_valid e t b d ds) = filter (\<lambda>x. isExpoPushToken e (expoPushToken x)) ds"
  by (induction ds) simp_all

lemma fst_collect_valid:
  "fst (collect_valid e t b d ds) = map (push_message t b d) (snd (collect_valid e t b d ds))"
  by (induction ds) simp_all

lemma concat_chunk_from: "concat (chunk_from limit chunk ms) = chunk @ ms"
  by (induction ms arbitrary: chunk) simp_all

lemma concat_chunkPushNotifications: "concat (chunkPushNotifications limit ms) = ms"
  by (simp add: chunkPushNotifications_def concat_chunk_from)

text \<open>
  The chunk loop in closed form: every chunk is appended to the log of submissions, the
  tickets of the answered chunks are collected in order, and each chunk that throws
  contributes its error text and its length.
\<close>

lemma send_chunks_eq:
  "send_chunks e cs w tk r =
     (w\<lparr>submitted := submitted w @ cs\<rparr>,
      tk @ returned_tickets e (length (submitted w)) cs,
      r\<lparr>errors := errors r @ map snd (thrown e (length (submitted w)) cs),
        failureCount := failureCount r
           + sum_list (map (\<lambda>p. length (fst p)) (thrown e (length (submitted w)) cs))\<rparr>)"
proof (induction cs arbitrary: w tk r)
  case Nil
  show ?case by simp
next
  case (Cons c cs)
  show ?case
    by (cases "sendPushNotificationsAsync e (length (submitted w)) c") (simp_all add: Cons)
qed

lemma submitted_updateDeviceLastNotified [simp]:
  "submitted (updateDeviceLastNotified e w i) = submitted w"
  by (simp add: updateDeviceLastNotified_def)

lemma submitted_unregisterDevice [simp]:
  "submitted (unregisterDevice e w tok) = submitted w"
  by (simp add: unregisterDevice_def)

lemma submitted_handle_tickets:
  "handle_tickets e vd i ts w r = (res, w') \<Longrightarrow> submitted w' = submitted w"
  by (induction e vd i ts w r rule: handle_tickets.induct)
     (auto split: option.splits if_splits)

lemma handle_tickets_counts:
  "handle_tickets e vd i ts w r = (Inr r', w') \<Longrightarrow>
     successCount r' = successCount r + length (filter is_ok ts) \<and>
     failureCount r' = failureCount r + length (filter (\<lambda>tk. \<not> is_ok tk) ts)"
  by (induction e vd i ts w r rule: handle_tickets.induct)
     (auto split: option.splits if_splits)

lemma handle_tickets_returns:
  "i + length ts \<le> length vd \<Longrightarrow> \<exists>r' w'. handle_tickets e vd i ts w r = (Inr r', w')"
  by (induction e vd i ts w r rule: handle_tickets.induct)
     (auto simp: device_at_def split: option.splits if_splits)

lemma token_disabled_unregisterDevice:
  "token_disabled (unregisterDevice e w tok) tok"
proof -
  have "list_all (\<lambda>d. expoPushToken d = tok \<longrightarrow> \<not> enabled d)
          (map (\<lambda>d. if expoPushToken d = tok
                  then d\<lparr>enabled := False, dev_updatedAt := now e\<rparr> else d) ds)" for ds
    by (induction ds) simp_all
  then show ?thesis by (simp add: token_disabled_def unregisterDevice_def)
qed

lemma token_disabled_updateDeviceLastNotified:
  "token_disabled w tok \<Longrightarrow> token_disabled (updateDeviceLastNotified e w i) tok"
  by (auto simp: token_disabled_def updateDeviceLastNotified_def list_all_iff)

lemma token_disabled_unregisterDevice_other:
  "token_disabled w tok \<Longrightarrow> token_disabled (unregisterDevice e w tok') tok"
  by (auto simp: token_disabled_def unregisterDevice_def list_all_iff)

lemma token_disabled_handle_tickets:
  "handle_tickets e vd i ts w r = (res, w') \<Longrightarrow> token_disabled w tok \<Longrightarrow> token_disabled w' tok"
proof (induction e vd i ts w r rule: handle_tickets.induct)
  case (1 e vd i w r)
  then show ?case by simp
next
  case (2 e vd i rid rest w r)
  show ?case
  proof (cases "device_at vd i")
    case None
    with "2.prems" show ?thesis by simp
  next
    case (Some dv)
    with "2.prems"(1) have "handle_tickets e vd (Suc i) rest
            (updateDeviceLastNotified e w (dev_id dv))
            (r\<lparr>successCount := successCount r + 1\<rparr>) = (res, w')" by simp
    from "2.IH" [OF Some this token_disabled_updateDeviceLastNotified [OF "2.prems"(2)]]
    show ?thesis .
  qed
next
  case (3 e vd i m details rest w r)
  show ?case
  proof (cases "details = None \<or> details = Some []")
    case True
    with "3.prems"(1) have "handle_tickets e vd (Suc i) rest w
                   (r\<lparr>failureCount := failureCount r + 1\<rparr>) = (res, w')"
      by (auto split: option.splits)
    with True "3.IH"(1,2) "3.prems"(2) show ?thesis by (auto split: option.splits)
  next
    case False
    then obtain reason where d: "details = Some reason" and ne: "reason \<noteq> []" by auto
    show ?thesis
    proof (cases "device_at vd i")
      case None
      with "3.prems" d ne show ?thesis by simp
    next
      case (Some dv)
      let ?w1 = "if reason = ''DeviceNotRegistered''
                    then unregisterDevice e w (expoPushToken dv) else w"
      have td: "token_disabled ?w1 tok"
        using "3.prems"(2) by (simp add: token_disabled_unregisterDevice_other)
      from "3.prems"(1) d ne Some have "handle_tickets e vd (Suc i) rest ?w1
                   (r\<lparr>failureCount := failureCount r + 1,
                      errors := errors r @ [expoPushToken dv @ '': '' @ reason]\<rparr>) = (res, w')"
        by simp
      from "3.IH"(3) [OF d ne Some this td] show ?thesis .
    qed
  qed
qed

lemma handle_tickets_errors:
  "handle_tickets e vd i ts w r = (Inr r', w') \<Longrightarrow> prefix (errors r) (errors r')"
proof (induction e vd i ts w r rule: handle_tickets.induct)
  case (1 e vd i w r)
  then show ?case by simp
next
  case (2 e vd i rid rest w r)
  then show ?case by (auto split: option.splits)
next
  case (3 e vd i m details rest w r)
  show ?case
  proof (cases "details = None \<or> details = Some []")
    case True
    with "3.prems" "3.IH"(1,2) show ?thesis by (auto split: option.splits)
  next
    case False
    then obtain reason where d: "details = Some reason" and ne: "reason \<noteq> []" by auto
    from "3.prems" d ne obtain dv where dv: "device_at vd i = Some dv"
      by (auto split: option.splits)
    from "3.prems"(1) d ne dv have "handle_tickets e vd (Suc i) rest (if reason = ''DeviceNotRegistered''
                    then unregisterDevice e w (expoPushToken dv) else w)
                   (r\<lparr>failureCount := failureCount r + 1,
                      errors := errors r @ [expoPushToken dv @ '': '' @ reason]\<rparr>) = (Inr r', w')"
      by simp
    from "3.IH"(3) [OF d ne dv this]
    have "prefix (errors r @ [expoPushToken dv @ '': '' @ reason]) (errors r')" by simp
    then show ?thesis by (rule append_prefixD)
  qed
qed

lemma drop_device_at:
  "device_at vd i = Some device \<Longrightarrow> drop i vd = device # drop (Suc i) vd"
  by (auto simp: device_at_def Cons_nth_drop_Suc split: if_splits)

lemma handle_tickets_error_ticket:
  assumes "handle_tickets e vd i ts w r = (Inr r', w')"
    and "(ErrorTicket msg (Some reason), device) \<in> set (zip ts (drop i vd))"
    and "reason \<noteq> []"
  shows "(expoPushToken device @ '': '' @ reason) \<in> set (errors r') \<and>
         (reason = ''DeviceNotRegistered'' \<longrightarrow> token_disabled w' (expoPushToken device))"
  using assms
proof (induction e vd i ts w r rule: handle_tickets.induct)
  case (1 e vd i w r)
  then show ?case by simp
next
  case (2 e vd i rid rest w r)
  from "2.prems"(1) obtain dv where dv: "device_at vd i = Some dv"
    by (auto split: option.splits)
  with "2.prems"(1) have run: "handle_tickets e vd (Suc i) rest
            (updateDeviceLastNotified e w (dev_id dv))
            (r\<lparr>successCount := successCount r + 1\<rparr>) = (Inr r', w')" by simp
  from "2.prems"(2) have "(ErrorTicket msg (Some reason), device) \<in> set (zip rest (drop (Suc i) vd))"
    by (auto simp: drop_device_at [OF dv])
  from "2.IH" [OF dv run this "2.prems"(3)] show ?case .
next
  case (3 e vd i m details rest w r)
  from "3.prems"(2) have lt: "i < length vd" by (cases "i < length vd") auto
  then obtain dv where dv: "device_at vd i = Some dv" by (simp add: device_at_def)
  from "3.prems"(2) have mem: "(m = msg \<and> details = Some reason \<and> dv = device) \<or>
     (ErrorTicket msg (Some reason), device) \<in> set (zip rest (drop (Suc i) vd))"
    by (auto simp: drop_device_at [OF dv])
  show ?case
  proof (cases "details = None \<or> details = Some []")
    case True
    with "3.prems"(1) have run: "handle_tickets e vd (Suc i) rest w
                   (r\<lparr>failureCount := failureCount r + 1\<rparr>) = (Inr r', w')"
      by (auto split: option.splits)
    from True mem "3.prems"(3)
    have "(ErrorTicket msg (Some reason), device) \<in> set (zip rest (drop (Suc i) vd))" by auto
    with True "3.IH"(1,2) run "3.prems"(3) show ?thesis by (auto split: option.splits)
  next
    case False
    then obtain reason' where d: "details = Some reason'" and ne: "reason' \<noteq> []" by auto
    let ?w1 = "if reason' = ''DeviceNotRegistered''
                    then unregisterDevice e w (expoPushToken dv) else w"
    let ?r1 = "r\<lparr>failureCount := failureCount r + 1,
                      errors := errors r @ [expoPushToken dv @ '': '' @ reason']\<rparr>"
    from "3.prems"(1) d ne dv have run: "handle_tickets e vd (Suc i) rest ?w1 ?r1 = (Inr r', w')"
      by simp
    from mem show ?thesis
    proof
      assume here: "m = msg \<and> details = Some reason \<and> dv = device"
      with d have eq: "reason' = reason" "dv = device" by simp_all
      have "prefix (errors ?r1) (errors r')" using run by (rule handle_tickets_errors)
      then have "set (errors ?r1) \<subseteq> set (errors r')" by (rule set_mono_prefix)
      then have a: "(expoPushToken device @ '': '' @ reason) \<in> set (errors r')"
        using eq by auto
      have b: "token_disabled w' (expoPushToken device)" if "reason = ''DeviceNotRegistered''"
      proof -
        from that eq have "token_disabled ?w1 (expoPushToken device)"
          by (simp add: token_disabled_unregisterDevice)
        with run show ?thesis by (rule token_disabled_handle_tickets)
      qed
      from a b show ?thesis by simp
    next
      assume "(ErrorTicket msg (Some reason), device) \<in> set (zip rest (drop (Suc i) vd))"
      from "3.IH"(3) [OF d ne dv run this "3.prems"(3)] show ?thesis .
    qed
  qed
qed

subsection \<open>The run of sendPushNotification past its early returns\<close>

lemma sendPushNotification_run:
  assumes "messages = fst (collect_valid e t b d (candidate_devices w tg))"
    and "messages \<noteq> []"
    and "chunks = chunkPushNotifications (chunkLimit e) messages"
  shows "sendPushNotification e w t b d tg =
     handle_tickets e (snd (collect_valid e t b d (candidate_devices w tg))) 0
       (returned_tickets e (length (submitted w)) chunks)
       (w\<lparr>submitted := submitted w @ chunks\<rparr>)
       \<lparr>successCount = 0,
        failureCount = sum_list (map (\<lambda>p. length (fst p)) (thrown e (length (submitted w)) chunks)),
        errors = map snd (thrown e (length (submitted w)) chunks)\<rparr>"
  using assms by (simp add: sendPushNotification_chunked send_chunks_eq)

lemma thrown_member:
  "k < length cs \<Longrightarrow> sendPushNotificationsAsync e (n + k) (cs ! k) = Inl err \<Longrightarrow>
   (cs ! k, err) \<in> set (thrown e n cs)"
proof (induction cs arbitrary: n k)
  case Nil
  then show ?case by simp
next
  case (Cons c cs)
  show ?case
  proof (cases k)
    case 0
    with Cons.prems show ?thesis by simp
  next
    case (Suc k')
    with Cons.prems have "(cs ! k', err) \<in> set (thrown e (Suc n) cs)"
      by (intro Cons.IH) simp_all
    with Suc show ?thesis by (simp split: sum.splits)
  qed
qed

lemma tickets_and_thrown_cover:
  assumes "\<forall>n c ts. sendPushNotificationsAsync e n c = Inr ts \<longrightarrow> length ts = length c"
  shows "length (returned_tickets e n cs)
           + sum_list (map (\<lambda>p. length (fst p)) (thrown e n cs)) = length (concat cs)"
  using assms by (induction cs arbitrary: n) (auto split: sum.splits)

lemma aligned_position:
  assumes "\<forall>i \<le> j. \<exists>ts. sendPushNotificationsAsync e (n + i) (cs ! i) = Inr ts
                        \<and> length ts = length (cs ! i)"
    and "j < length cs"
    and "sendPushNotificationsAsync e (n + j) (cs ! j) = Inr ticketChunk"
    and "k < length ticketChunk"
  shows "(ticketChunk ! k, cs ! j ! k) \<in> set (zip (returned_tickets e n cs) (concat cs))"
  using assms
proof (induction cs arbitrary: n j)
  case Nil
  then show ?case by simp
next
  case (Cons c cs)
  from Cons.prems(1) obtain ts0 where
    h: "sendPushNotificationsAsync e n c = Inr ts0" "length ts0 = length c"
    by force
  then have z: "zip (returned_tickets e n (c # cs)) (concat (c # cs))
               = zip ts0 c @ zip (returned_tickets e (Suc n) cs) (concat cs)"
    by simp
  show ?case
  proof (cases j)
    case 0
    with Cons.prems(3) h have "ticketChunk = ts0" by simp
    with Cons.prems(4) h have "(ticketChunk ! k, c ! k) \<in> set (zip ts0 c)"
      by (auto simp: in_set_zip)
    with 0 z show ?thesis by simp
  next
    case (Suc j')
    have a: "\<forall>i \<le> j'. \<exists>ts. sendPushNotificationsAsync e (Suc n + i) (cs ! i) = Inr ts
                        \<and> length ts = length (cs ! i)"
    proof (intro allI impI)
      fix i assume "i \<le> j'"
      then have "Suc i \<le> j" using Suc by simp
      with Cons.prems(1) show "\<exists>ts. sendPushNotificationsAsync e (Suc n + i) (cs ! i) = Inr ts
                        \<and> length ts = length (cs ! i)"
        by (metis add_Suc_shift nth_Cons_Suc)
    qed
    have b: "j' < length cs" using Cons.prems(2) Suc by simp
    have c: "sendPushNotificationsAsync e (Suc n + j') (cs ! j') = Inr ticketChunk"
      using Cons.prems(3) Suc by simp
    from Cons.IH [OF a b c Cons.prems(4)] Suc z show ?thesis by simp
  qed
qed

lemma chunk_from_fill:
  "length chunk + length ms = limit \<Longrightarrow> ms \<noteq> [] \<Longrightarrow>
   chunk_from limit chunk (ms @ rest) = (chunk @ ms) # chunk_from limit [] rest"
proof (induction ms arbitrary: chunk)
  case Nil
  then show ?case by simp
next
  case (Cons m ms)
  show ?case
  proof (cases "ms = []")
    case True
    with Cons.prems show ?thesis by simp
  next
    case False
    with Cons.prems have "\<not> limit \<le> length (chunk @ [m])" by (cases ms) auto
    moreover have "chunk_from limit (chunk @ [m]) (ms @ rest)
                     = ((chunk @ [m]) @ ms) # chunk_from limit [] rest"
      using Cons.prems False by (intro Cons.IH) simp_all
    ultimately show ?thesis by simp
  qed
qed

lemma chunk_from_single: "chunk_from limit [] [x] = [[x]]"
  by simp

lemma chunks_of_one_more_than_limit:
  assumes "0 < limit" and "length ms = limit + 1"
  shows "chunkPushNotifications limit ms = [take limit ms, drop limit ms]"
proof -
  have "length (drop limit ms) = 1" using assms by simp
  then obtain x where x: "drop limit ms = [x]"
    by (cases "drop limit ms") auto
  have split: "ms = take limit ms @ [x]"
    using append_take_drop_id [of limit ms] x by simp
  have ne: "take limit ms \<noteq> []" using assms by auto
  have full: "length ([] :: 'a list) + length (take limit ms) = limit" using assms by simp
  have "chunk_from limit [] ms = chunk_from limit [] (take limit ms @ [x])"
    by (rule arg_cong [OF split])
  also have "\<dots> = ([] @ take limit ms) # chunk_from limit [] [x]"
    using full ne by (rule chunk_from_fill)
  also have "\<dots> = [take limit ms, [x]]"
    by (simp only: chunk_from_single append_Nil)
  finally show ?thesis
    unfolding chunkPushNotifications_def x .
qed

subsection \<open>Chunks that throw\<close>

text \<open>
  Claim C6. In a call of sendPushNotification that reaches the gateway, every chunk is
  submitted, in order, whatever the earlier submissions did: the log of submissions at the
  end is the log at the start followed by all the chunks, also when the call itself ends
  in an exception. When the call returns a result, its failure count is the sum of the
  lengths of the chunks whose submission threw plus the number of tickets that are not
  ok, and the texts of the thrown errors are the first entries of its error list; so for
  each chunk that throws the count grows by exactly the length of that chunk and the text
  of its error is recorded.
\<close>

theorem chunk_failure_does_not_stop_the_run:
  assumes "messages = fst (collect_valid e t b d (candidate_devices w targetUserIds))"
    and "messages \<noteq> []"
    and "chunks = chunkPushNotifications (chunkLimit e) messages"
    and "sendPushNotification e w t b d targetUserIds = (res, w')"
  shows "submitted w' = submitted w @ chunks \<and>
         (\<forall>result. res = Inr result \<longrightarrow>
            failureCount result =
              sum_list (map (\<lambda>p. length (fst p)) (thrown e (length (submitted w)) chunks))
              + length (filter (\<lambda>tk. \<not> is_ok tk)
                          (returned_tickets e (length (submitted w)) chunks)) \<and>
            prefix (map snd (thrown e (length (submitted w)) chunks)) (errors result) \<and>
            (\<forall>k err. k < length chunks \<and>
               sendPushNotificationsAsync e (length (submitted w) + k) (chunks ! k) = Inl err
               \<longrightarrow> err \<in> set (errors result)))"
proof -
  let ?n = "length (submitted w)"
  let ?vd = "snd (collect_valid e t b d (candidate_devices w targetUserIds))"
  let ?r0 = "\<lparr>successCount = 0,
        failureCount = sum_list (map (\<lambda>p. length (fst p)) (thrown e ?n chunks)),
        errors = map snd (thrown e ?n chunks)\<rparr>"
  have run: "handle_tickets e ?vd 0 (returned_tickets e ?n chunks)
               (w\<lparr>submitted := submitted w @ chunks\<rparr>) ?r0 = (res, w')"
    using sendPushNotification_run [OF assms(1,2,3)] assms(4) by simp
  have log: "submitted w' = submitted w @ chunks"
    using submitted_handle_tickets [OF run] by simp
  have rest: "failureCount result =
              sum_list (map (\<lambda>p. length (fst p)) (thrown e ?n chunks))
              + length (filter (\<lambda>tk. \<not> is_ok tk) (returned_tickets e ?n chunks)) \<and>
            prefix (map snd (thrown e ?n chunks)) (errors result) \<and>
            (\<forall>k err. k < length chunks \<and>
               sendPushNotificationsAsync e (?n + k) (chunks ! k) = Inl err
               \<longrightarrow> err \<in> set (errors result))" if "res = Inr result" for result
  proof -
    from run that have run': "handle_tickets e ?vd 0 (returned_tickets e ?n chunks)
               (w\<lparr>submitted := submitted w @ chunks\<rparr>) ?r0 = (Inr result, w')" by simp
    have c: "failureCount result =
              sum_list (map (\<lambda>p. length (fst p)) (thrown e ?n chunks))
              + length (filter (\<lambda>tk. \<not> is_ok tk) (returned_tickets e ?n chunks))"
      using handle_tickets_counts [OF run'] by simp
    have p: "prefix (map snd (thrown e ?n chunks)) (errors result)"
      using handle_tickets_errors [OF run'] by simp
    have "err \<in> set (errors result)"
      if "k < length chunks" "sendPushNotificationsAsync e (?n + k) (chunks ! k) = Inl err"
      for k err
    proof -
      from that have "(chunks ! k, err) \<in> set (thrown e ?n chunks)" by (rule thrown_member)
      then have "err \<in> set (map snd (thrown e ?n chunks))" by force
      with set_mono_prefix [OF p] show ?thesis by blast
    qed
    with c p show ?thesis by blast
  qed
  from log rest show ?thesis by blast
qed

theorem chunk_failure_witness:
  "\<exists>result w'.
     sendPushNotification (example_env 2 first_throws) three_devices_world ''Hi'' ''Test'' None None
       = (Inr result, w') \<and>
     map (map to) (submitted w') = [[''t1'', ''t2''], [''t3'']] \<and>
     failureCount result = 2 \<and>
     ''Error: network'' \<in> set (errors result)"
proof -
  let ?e = "example_env 2 first_throws"
  let ?ms = "fst (collect_valid ?e ''Hi'' ''Test'' None (candidate_devices three_devices_world None))"
  let ?cs = "chunkPushNotifications (chunkLimit ?e) ?ms"
  have ne: "?ms \<noteq> []"
    by (simp add: run_defs example_defs)
  have "\<exists>result w'. sendPushNotification ?e three_devices_world ''Hi'' ''Test'' None None
          = (Inr result, w')"
    by (simp add: run_defs example_defs)
  then obtain result w' where
    run: "sendPushNotification ?e three_devices_world ''Hi'' ''Test'' None None = (Inr result, w')"
    by blast
  have cs: "map (map to) ?cs = [[''t1'', ''t2''], [''t3'']]"
    by (simp add: run_defs example_defs)
  have th: "thrown ?e (length (submitted three_devices_world)) ?cs = [(?cs ! 0, ''Error: network'')]"
    by (simp add: run_defs example_defs)
  have rt: "returned_tickets ?e (length (submitted three_devices_world)) ?cs = [SuccessTicket ''receipt'']"
    by (simp add: run_defs example_defs)
  have l: "length (?cs ! 0) = 2"
    by (simp add: run_defs example_defs)
  have s0: "submitted three_devices_world = []" by (simp add: example_defs)
  from chunk_failure_does_not_stop_the_run [OF refl ne refl run]
  have "submitted w' = submitted three_devices_world @ ?cs"
    and "failureCount result =
              sum_list (map (\<lambda>p. length (fst p))
                 (thrown ?e (length (submitted three_devices_world)) ?cs))
              + length (filter (\<lambda>tk. \<not> is_ok tk)
                          (returned_tickets ?e (length (submitted three_devices_world)) ?cs))"
    and "prefix (map snd (thrown ?e (length (submitted three_devices_world)) ?cs)) (errors result)"
    by blast+
  then have "map (map to) (submitted w') = [[''t1'', ''t2''], [''t3'']]"
    and "failureCount result = 2"
    and "prefix [''Error: network''] (errors result)"
    unfolding th rt using cs l s0 by simp_all
  then have "map (map to) (submitted w') = [[''t1'', ''t2''], [''t3'']] \<and>
     failureCount result = 2 \<and> ''Error: network'' \<in> set (errors result)"
    by (auto simp: prefix_def)
  with run show ?thesis
    by - (rule exI [of _ result], rule exI [of _ w'], simp)
qed

subsection \<open>Counting\<close>

lemma count_ok_zip:
  "length xs = length ts \<Longrightarrow>
   length (filter snd (zip xs (map is_ok ts))) = length (filter is_ok ts) \<and>
   length (filter (\<lambda>p. \<not> snd p) (zip xs (map is_ok ts))) = length (filter (\<lambda>tk. \<not> is_ok tk) ts)"
  by (induction xs ts rule: list_induct2) simp_all

lemma delivery_outcomes_tokens:
  assumes "\<forall>n c ts. sendPushNotificationsAsync e n c = Inr ts \<longrightarrow> length ts = length c"
  shows "map fst (delivery_outcomes e n cs) = map to (concat cs)"
  using assms by (induction cs arbitrary: n) (auto simp: comp_def split: sum.splits)

lemma delivery_outcomes_counts:
  assumes "\<forall>n c ts. sendPushNotificationsAsync e n c = Inr ts \<longrightarrow> length ts = length c"
  shows "length (filter snd (delivery_outcomes e n cs))
           = length (filter is_ok (returned_tickets e n cs)) \<and>
         length (filter (\<lambda>p. \<not> snd p) (delivery_outcomes e n cs))
           = sum_list (map (\<lambda>p. length (fst p)) (thrown e n cs))
             + length (filter (\<lambda>tk. \<not> is_ok tk) (returned_tickets e n cs))"
proof (induction cs arbitrary: n)
  case Nil
  show ?case by simp
next
  case (Cons c cs)
  show ?case
  proof (cases "sendPushNotificationsAsync e n c")
    case (Inl err)
    then show ?thesis using Cons [of "Suc n"] by (simp add: comp_def)
  next
    case (Inr ts)
    with assms have "length (map to c) = length ts" by simp
    from count_ok_zip [OF this] Inr Cons [of "Suc n"] show ?thesis by simp
  qed
qed

text \<open>
  Claim C9 as stated counts endpoints, each in exactly one counter. With the user id
  \<open>''u1''\<close> given twice, the two endpoints of that user are each submitted twice; the
  gateway accepts the first chunk and rejects the second. The two endpoints give success
  2 and failure 2, and each of them is counted in both counters.
\<close>

theorem endpoint_listed_twice_counterexample:
  "fst (sendPushNotification (example_env 2 second_rejects) three_devices_world
          ''Hi'' ''Test'' None (Some [''u1'', ''u1'']))
     = Inr \<lparr>successCount = 2, failureCount = 2,
            errors = [''t1: MessageRateExceeded'', ''t2: MessageRateExceeded'']\<rparr> \<and>
   remdups (map dev_id (candidate_devices three_devices_world (Some [''u1'', ''u1''])))
     = [''d1'', ''d2''] \<and>
   delivery_outcomes (example_env 2 second_rejects) 0
     (submitted (snd (sendPushNotification (example_env 2 second_rejects) three_devices_world
                        ''Hi'' ''Test'' None (Some [''u1'', ''u1'']))))
     = [(''t1'', True), (''t2'', True), (''t1'', False), (''t2'', False)]"
  by (simp add: run_defs example_defs)

text \<open>
  Claim C9, amended. Let the gateway answer a chunk, whenever it answers, with one ticket
  per message. If at least one candidate has a token that the validator accepts,
  sendPushNotification returns a result. The chunks it has submitted are the chunks of the
  messages of the candidates with an accepted token, one message per listed candidate and in
  the order of the list; a dropped candidate is not submitted and not counted. Every
  submitted message has one outcome, and the success count is the number of messages whose
  ticket is ok, the failure count the number of messages whose ticket is not ok or whose
  chunk threw: each submitted message is counted in exactly one of the two counters, and
  the two counts add up to the number of submitted messages, whichever chunks throw and
  whichever tickets are ok. When no endpoint is listed twice among the candidates, none is
  submitted twice, so each endpoint is counted in exactly one counter.
\<close>

theorem every_submitted_endpoint_is_counted_once:
  assumes "\<forall>n c ts. sendPushNotificationsAsync e n c = Inr ts \<longrightarrow> length ts = length c"
    and "valid = filter (\<lambda>x. isExpoPushToken e (expoPushToken x)) (candidate_devices w targetUserIds)"
    and "valid \<noteq> []"
    and "chunks = chunkPushNotifications (chunkLimit e) (map (push_message t b d) valid)"
  shows "\<exists>result w'.
           sendPushNotification e w t b d targetUserIds = (Inr result, w') \<and>
           submitted w' = submitted w @ chunks \<and>
           map to (concat chunks) = map expoPushToken valid \<and>
           map fst (delivery_outcomes e (length (submitted w)) chunks) = map expoPushToken valid \<and>
           successCount result
             = length (filter snd (delivery_outcomes e (length (submitted w)) chunks)) \<and>
           failureCount result
             = length (filter (\<lambda>p. \<not> snd p) (delivery_outcomes e (length (submitted w)) chunks)) \<and>
           successCount result + failureCount result = length valid \<and>
           (distinct (map dev_id (candidate_devices w targetUserIds))
              \<longrightarrow> distinct (map dev_id valid))"
proof -
  let ?n = "length (submitted w)"
  let ?vd = "snd (collect_valid e t b d (candidate_devices w targetUserIds))"
  let ?ms = "fst (collect_valid e t b d (candidate_devices w targetUserIds))"
  let ?r0 = "\<lparr>successCount = 0,
        failureCount = sum_list (map (\<lambda>p. length (fst p)) (thrown e ?n chunks)),
        errors = map snd (thrown e ?n chunks)\<rparr>"
  have vd: "?vd = valid" using assms(2) by (simp add: snd_collect_valid)
  have ms: "?ms = map (push_message t b d) valid" using vd by (simp add: fst_collect_valid)
  with assms(3) have ne: "?ms \<noteq> []" by simp
  have cs: "chunks = chunkPushNotifications (chunkLimit e) ?ms" using assms(4) ms by simp
  have run: "sendPushNotification e w t b d targetUserIds =
     handle_tickets e ?vd 0 (returned_tickets e ?n chunks) (w\<lparr>submitted := submitted w @ chunks\<rparr>) ?r0"
    using ne cs by (intro sendPushNotification_run) simp_all
  have conc: "concat chunks = map (push_message t b d) valid"
    using assms(4) by (simp add: concat_chunkPushNotifications)
  then have toks: "map to (concat chunks) = map expoPushToken valid"
    by (simp add: push_message_def comp_def)
  have cover: "length (returned_tickets e ?n chunks)
           + sum_list (map (\<lambda>p. length (fst p)) (thrown e ?n chunks)) = length valid"
    using tickets_and_thrown_cover [OF assms(1), of ?n chunks] conc by simp
  then have "0 + length (returned_tickets e ?n chunks) \<le> length ?vd" using vd by simp
  from handle_tickets_returns [OF this] obtain result w' where
    h: "handle_tickets e ?vd 0 (returned_tickets e ?n chunks) (w\<lparr>submitted := submitted w @ chunks\<rparr>) ?r0
         = (Inr result, w')" by blast
  have log: "submitted w' = submitted w @ chunks"
    using submitted_handle_tickets [OF h] by simp
  note oc = delivery_outcomes_counts [OF assms(1), of ?n chunks]
  have sc: "successCount result = length (filter snd (delivery_outcomes e ?n chunks))"
    using handle_tickets_counts [OF h] oc by simp
  have fc: "failureCount result
             = length (filter (\<lambda>p. \<not> snd p) (delivery_outcomes e ?n chunks))"
    using handle_tickets_counts [OF h] oc by simp
  have ot: "map fst (delivery_outcomes e ?n chunks) = map expoPushToken valid"
    using delivery_outcomes_tokens [OF assms(1), of ?n chunks] toks by simp
  have "length (filter snd xs) + length (filter (\<lambda>p. \<not> snd p) xs) = length xs"
    for xs :: "(string \<times> bool) list"
    by (induction xs) simp_all
  from this [of "delivery_outcomes e ?n chunks"] sc fc
  have "successCount result + failureCount result = length (map fst (delivery_outcomes e ?n chunks))"
    by simp
  then have sum: "successCount result + failureCount result = length valid"
    unfolding ot by simp
  have dist: "distinct (map dev_id valid)"
    if "distinct (map dev_id (candidate_devices w targetUserIds))"
    unfolding assms(2) using that by (rule distinct_map_filter)
  from run h log toks ot sc fc sum dist show ?thesis by simp
qed

theorem counted_once_witness:
  "\<exists>result w'.
     sendPushNotification (example_env 2 first_throws) four_devices_world ''Hi'' ''Test'' None None
       = (Inr result, w') \<and>
     map (map to) (submitted w') = [[''t1'', ''t3''], [''t4'']] \<and>
     successCount result = 1 \<and> failureCount result = 2 \<and>
     successCount result + failureCount result = 3"
proof -
  let ?e = "example_env 2 first_throws"
  let ?w = "four_devices_world"
  let ?valid = "filter (\<lambda>x. isExpoPushToken ?e (expoPushToken x)) (candidate_devices ?w None)"
  let ?cs = "chunkPushNotifications (chunkLimit ?e) (map (push_message ''Hi'' ''Test'' None) ?valid)"
  have contract: "\<forall>n c ts. sendPushNotificationsAsync ?e n c = Inr ts \<longrightarrow> length ts = length c"
    by (auto simp: example_env_def first_throws_def split: if_splits)
  have valid: "?valid \<noteq> []"
    by (simp add: run_defs example_defs)
  have n: "length ?valid = 3"
    by (simp add: run_defs example_defs)
  have cs: "map (map to) ?cs = [[''t1'', ''t3''], [''t4'']]"
    by (simp add: run_defs example_defs)
  have oc: "delivery_outcomes ?e (length (submitted ?w)) ?cs
              = [(''t1'', False), (''t3'', False), (''t4'', True)]"
    by (simp add: run_defs example_defs)
  have s0: "submitted ?w = []" by (simp add: example_defs)
  from every_submitted_endpoint_is_counted_once [OF contract refl valid refl]
  obtain result w' where
    r: "sendPushNotification ?e ?w ''Hi'' ''Test'' None None = (Inr result, w')"
    and l: "submitted w' = submitted ?w @ ?cs"
    and sc: "successCount result = length (filter snd (delivery_outcomes ?e (length (submitted ?w)) ?cs))"
    and fc: "failureCount result
             = length (filter (\<lambda>p. \<not> snd p) (delivery_outcomes ?e (length (submitted ?w)) ?cs))"
    and sm: "successCount result + failureCount result = length ?valid"
    by blast
  from l s0 cs have "map (map to) (submitted w') = [[''t1'', ''t3''], [''t4'']]" by simp
  moreover from sc have "successCount result = 1" unfolding oc by simp
  moreover from fc have "failureCount result = 2" unfolding oc by simp
  moreover from sm n have "successCount result + failureCount result = 3" by simp
  ultimately show ?thesis
    using r by - (rule exI [of _ result], rule exI [of _ w'], simp)
qed

subsection \<open>Tickets that are not ok\<close>

lemma enabled_by_token_updateDeviceLastNotified [simp]:
  "enabled_by_token (updateDeviceLastNotified e w i) = enabled_by_token w"
  by (simp add: enabled_by_token_def updateDeviceLastNotified_def)

lemma enabled_by_token_unregisterDevice:
  "enabled_by_token (unregisterDevice e w tok) = disable_tokens [tok] (enabled_by_token w)"
  by (simp add: enabled_by_token_def unregisterDevice_def disable_tokens_def)

lemma disable_tokens_Nil [simp]: "disable_tokens [] rows = rows"
  by (simp add: disable_tokens_def)

lemma disable_tokens_Cons:
  "disable_tokens tokens (disable_tokens [tok] rows) = disable_tokens (tok # tokens) rows"
  by (auto simp: disable_tokens_def)

lemma drop_device_at_None: "device_at vd i = None \<Longrightarrow> drop i vd = []"
  by (simp add: device_at_def split: if_splits)

text \<open>
  The ticket loop in closed form, for the pairing the code makes (ticket \<open>i\<close> with
  \<^verbatim>\<open>validDevices[i]\<close>): the texts it appends and the rows it disables.
\<close>

lemma handle_tickets_exact:
  assumes "handle_tickets e vd i ts w r = (Inr r', w')"
  shows "errors r' = errors r @ recorded_errors (zip ts (map expoPushToken (drop i vd))) \<and>
         enabled_by_token w' =
           disable_tokens (unregistered_tokens (zip ts (map expoPushToken (drop i vd))))
             (enabled_by_token w)"
  using assms
proof (induction e vd i ts w r rule: handle_tickets.induct)
  case (1 e vd i w r)
  then show ?case by simp
next
  case (2 e vd i rid rest w r)
  from "2.prems" obtain dv where dv: "device_at vd i = Some dv"
    by (auto split: option.splits)
  with "2.prems" have run: "handle_tickets e vd (Suc i) rest
            (updateDeviceLastNotified e w (dev_id dv))
            (r\<lparr>successCount := successCount r + 1\<rparr>) = (Inr r', w')" by simp
  from "2.IH" [OF dv run] show ?case
    by (simp add: drop_device_at [OF dv])
next
  case (3 e vd i m details rest w r)
  show ?case
  proof (cases "details = None \<or> details = Some []")
    case True
    then have tr: "ticket_reason (ErrorTicket m details) = None" by auto
    from True "3.prems" have run: "handle_tickets e vd (Suc i) rest w
                   (r\<lparr>failureCount := failureCount r + 1\<rparr>) = (Inr r', w')"
      by (auto split: option.splits)
    have ih: "errors r' = errors r @ recorded_errors (zip rest (map expoPushToken (drop (Suc i) vd))) \<and>
         enabled_by_token w' =
           disable_tokens (unregistered_tokens (zip rest (map expoPushToken (drop (Suc i) vd))))
             (enabled_by_token w)"
      using True "3.IH"(1,2) run by auto
    show ?thesis
    proof (cases "device_at vd i")
      case None
      then have "drop i vd = []" by (rule drop_device_at_None)
      moreover from this have "drop (Suc i) vd = []" by simp
      ultimately show ?thesis using ih by simp
    next
      case (Some dv)
      show ?thesis using ih tr by (simp add: drop_device_at [OF Some])
    qed
  next
    case False
    then obtain reason where d: "details = Some reason" and ne: "reason \<noteq> []" by auto
    from "3.prems" d ne obtain dv where dv: "device_at vd i = Some dv"
      by (auto split: option.splits)
    let ?w1 = "if reason = ''DeviceNotRegistered''
                    then unregisterDevice e w (expoPushToken dv) else w"
    let ?r1 = "r\<lparr>failureCount := failureCount r + 1,
                      errors := errors r @ [expoPushToken dv @ '': '' @ reason]\<rparr>"
    from "3.prems" d ne dv have run: "handle_tickets e vd (Suc i) rest ?w1 ?r1 = (Inr r', w')"
      by simp
    note ih = "3.IH"(3) [OF d ne dv run]
    have tr: "ticket_reason (ErrorTicket m details) = Some reason" using d ne by simp
    show ?thesis
    proof (cases "reason = ''DeviceNotRegistered''")
      case True
      with ih tr show ?thesis
        by (simp add: drop_device_at [OF dv] enabled_by_token_unregisterDevice disable_tokens_Cons)
    next
      case False
      with ih tr show ?thesis
        by (simp add: drop_device_at [OF dv])
    qed
  qed
qed

text \<open>
  When every chunk is answered with one ticket per message, pairing the collected tickets
  with the tokens in the order of the messages is pairing each ticket with the token at
  its position in its own chunk, and no chunk has thrown.
\<close>

lemma fully_answered:
  assumes "\<forall>i < length cs. \<exists>ts. sendPushNotificationsAsync e (n + i) (cs ! i) = Inr ts
                        \<and> length ts = length (cs ! i)"
  shows "zip (returned_tickets e n cs) (map to (concat cs)) = answered_pairs e n cs \<and>
         thrown e n cs = []"
  using assms
proof (induction cs arbitrary: n)
  case Nil
  then show ?case by simp
next
  case (Cons c cs)
  from Cons.prems obtain ts0 where
    h: "sendPushNotificationsAsync e n c = Inr ts0" "length ts0 = length c"
    by force
  have "\<forall>i < length cs. \<exists>ts. sendPushNotificationsAsync e (Suc n + i) (cs ! i) = Inr ts
                        \<and> length ts = length (cs ! i)"
  proof (intro allI impI)
    fix i assume "i < length cs"
    then have "Suc i < length (c # cs)" by simp
    with Cons.prems show "\<exists>ts. sendPushNotificationsAsync e (Suc n + i) (cs ! i) = Inr ts
                        \<and> length ts = length (cs ! i)"
      by (metis add_Suc_shift nth_Cons_Suc)
  qed
  from Cons.IH [OF this] h show ?case by simp
qed

text \<open>
  Claim C3 as stated asks for an error text for every ticket that is not ok. Three
  tickets without \<^verbatim>\<open>details\<close>: three failures are counted, the error list is empty and
  every endpoint is still enabled.
\<close>

theorem error_ticket_without_reason_counterexample:
  "fst (sendPushNotification (example_env 100 no_details) three_devices_world
          ''Hi'' ''Test'' None None)
     = Inr \<lparr>successCount = 0, failureCount = 3, errors = []\<rparr> \<and>
   enabled_by_token
     (snd (sendPushNotification (example_env 100 no_details) three_devices_world
             ''Hi'' ''Test'' None None))
     = [(''t1'', True), (''t2'', True), (''t3'', True)]"
  by (simp add: run_defs example_defs enabled_by_token_def)

text \<open>
  Claim C3, amended. Take a call of sendPushNotification that returns a result, and a
  ticket that is not ok at position \<open>k\<close> of the answer to chunk \<open>j\<close>, every chunk up to
  and including chunk \<open>j\<close> having been answered with one ticket per message. The ticket is
  one of the returned tickets, each of which adds one to the success or to the failure
  count, the tickets that are not ok to the failure count. The token at position \<open>k\<close> of
  chunk \<open>j\<close> is the token of a candidate endpoint. If the ticket carries a reason that is
  not empty, the text made of that token, a colon and a space, and the reason is in the
  error list of the result; and if the reason is DeviceNotRegistered, every registry row
  with that token is disabled in the state the call returns.

  When every chunk of the call is answered with one ticket per message, nothing else is
  recorded and nothing else is disabled: the error list is exactly the texts of the
  tickets that carry a reason, each with the token at its position in its own chunk, in
  the order of the tickets; and a registry row is enabled at the end exactly when it was
  enabled at the start and its token is not the token of a ticket whose reason is
  DeviceNotRegistered. So a ticket that is not ok and carries no reason is counted as a
  failure, adds no text and unregisters nothing.
\<close>

theorem error_ticket_is_recorded_and_unregistered:
  assumes "messages = fst (collect_valid e t b d (candidate_devices w targetUserIds))"
    and "messages \<noteq> []"
    and "chunks = chunkPushNotifications (chunkLimit e) messages"
    and "sendPushNotification e w t b d targetUserIds = (Inr result, w')"
    and "j < length chunks"
    and "\<forall>i \<le> j. \<exists>ts. sendPushNotificationsAsync e (length (submitted w) + i) (chunks ! i) = Inr ts
                        \<and> length ts = length (chunks ! i)"
    and "sendPushNotificationsAsync e (length (submitted w) + j) (chunks ! j) = Inr ticketChunk"
    and "k < length ticketChunk"
    and "ticketChunk ! k = ErrorTicket msg details"
  shows "failureCount result =
           sum_list (map (\<lambda>p. length (fst p)) (thrown e (length (submitted w)) chunks))
           + length (filter (\<lambda>tk. \<not> is_ok tk) (returned_tickets e (length (submitted w)) chunks)) \<and>
         ErrorTicket msg details \<in> set (returned_tickets e (length (submitted w)) chunks) \<and>
         (\<exists>device \<in> set (candidate_devices w targetUserIds).
            expoPushToken device = to (chunks ! j ! k)) \<and>
         (\<forall>reason. details = Some reason \<and> reason \<noteq> [] \<longrightarrow>
            (to (chunks ! j ! k) @ '': '' @ reason) \<in> set (errors result) \<and>
            (reason = ''DeviceNotRegistered'' \<longrightarrow> token_disabled w' (to (chunks ! j ! k)))) \<and>
         ((\<forall>i < length chunks.
             \<exists>ts. sendPushNotificationsAsync e (length (submitted w) + i) (chunks ! i) = Inr ts
                  \<and> length ts = length (chunks ! i)) \<longrightarrow>
            errors result = recorded_errors (answered_pairs e (length (submitted w)) chunks) \<and>
            enabled_by_token w' =
              disable_tokens (unregistered_tokens (answered_pairs e (length (submitted w)) chunks))
                (enabled_by_token w))"
proof -
  let ?n = "length (submitted w)"
  let ?vd = "snd (collect_valid e t b d (candidate_devices w targetUserIds))"
  let ?tks = "returned_tickets e ?n chunks"
  let ?r0 = "\<lparr>successCount = 0,
        failureCount = sum_list (map (\<lambda>p. length (fst p)) (thrown e ?n chunks)),
        errors = map snd (thrown e ?n chunks)\<rparr>"
  have run: "handle_tickets e ?vd 0 ?tks (w\<lparr>submitted := submitted w @ chunks\<rparr>) ?r0
               = (Inr result, w')"
    using sendPushNotification_run [OF assms(1,2,3)] assms(4) by simp
  have count: "failureCount result =
           sum_list (map (\<lambda>p. length (fst p)) (thrown e ?n chunks))
           + length (filter (\<lambda>tk. \<not> is_ok tk) ?tks)"
    using handle_tickets_counts [OF run] by simp
  have "concat chunks = messages"
    using assms(3) by (simp add: concat_chunkPushNotifications)
  then have msgs: "concat chunks = map (push_message t b d) ?vd"
    using assms(1) by (simp add: fst_collect_valid)
  then have toks: "map to (concat chunks) = map expoPushToken ?vd"
    by (simp add: push_message_def comp_def)
  have "(ticketChunk ! k, chunks ! j ! k) \<in> set (zip ?tks (concat chunks))"
    using assms(6,5,7,8) by (rule aligned_position)
  then have "(ErrorTicket msg details, chunks ! j ! k)
               \<in> set (zip ?tks (map (push_message t b d) ?vd))"
    using assms(9) msgs by simp
  then obtain device where
    pair: "(ErrorTicket msg details, device) \<in> set (zip ?tks ?vd)"
    and m: "chunks ! j ! k = push_message t b d device"
    by (auto simp: zip_map2)
  have tok: "to (chunks ! j ! k) = expoPushToken device"
    using m by (simp add: push_message_def)
  have ret: "ErrorTicket msg details \<in> set ?tks"
    using pair by (rule set_zip_leftD)
  have "device \<in> set ?vd" using pair by (rule set_zip_rightD)
  then have cand: "device \<in> set (candidate_devices w targetUserIds)"
    by (simp add: snd_collect_valid)
  have main: "(to (chunks ! j ! k) @ '': '' @ reason) \<in> set (errors result) \<and>
            (reason = ''DeviceNotRegistered'' \<longrightarrow> token_disabled w' (to (chunks ! j ! k)))"
    if "details = Some reason" "reason \<noteq> []" for reason
  proof -
    from pair that(1)
    have "(ErrorTicket msg (Some reason), device) \<in> set (zip ?tks (drop 0 ?vd))" by simp
    from handle_tickets_error_ticket [OF run this that(2)] tok show ?thesis by simp
  qed
  have exact: "errors result = recorded_errors (answered_pairs e ?n chunks) \<and>
            enabled_by_token w' =
              disable_tokens (unregistered_tokens (answered_pairs e ?n chunks)) (enabled_by_token w)"
    if all: "\<forall>i < length chunks.
             \<exists>ts. sendPushNotificationsAsync e (?n + i) (chunks ! i) = Inr ts
                  \<and> length ts = length (chunks ! i)"
  proof -
    from fully_answered [OF all]
    have pairs: "zip ?tks (map to (concat chunks)) = answered_pairs e ?n chunks"
      and th: "thrown e ?n chunks = []" by simp_all
    from handle_tickets_exact [OF run]
    have "errors result = map snd (thrown e ?n chunks)
                            @ recorded_errors (zip ?tks (map expoPushToken ?vd))"
      and "enabled_by_token w' =
             disable_tokens (unregistered_tokens (zip ?tks (map expoPushToken ?vd)))
               (enabled_by_token (w\<lparr>submitted := submitted w @ chunks\<rparr>))"
      by simp_all
    then show ?thesis
      unfolding th toks [symmetric] pairs by (simp add: enabled_by_token_def)
  qed
  from count ret cand tok main exact show ?thesis by auto
qed

theorem unregistered_ticket_witness:
  "\<exists>result w'.
     sendPushNotification (example_env 2 mixed_tickets) three_devices_world ''Hi'' ''Test'' None None
       = (Inr result, w') \<and>
     failureCount result = 2 \<and>
     errors result = [''t3: DeviceNotRegistered''] \<and>
     token_disabled w' ''t3'' \<and>
     enabled_by_token w' = [(''t1'', True), (''t2'', True), (''t3'', False)]"
proof -
  let ?e = "example_env 2 mixed_tickets"
  let ?w = "three_devices_world"
  let ?ms = "fst (collect_valid ?e ''Hi'' ''Test'' None (candidate_devices ?w None))"
  let ?cs = "chunkPushNotifications (chunkLimit ?e) ?ms"
  let ?tk = "ErrorTicket ''not registered'' (Some ''DeviceNotRegistered'')"
  have ne: "?ms \<noteq> []"
    by (simp add: run_defs example_defs)
  have "\<exists>result w'. sendPushNotification ?e ?w ''Hi'' ''Test'' None None = (Inr result, w')"
    by (simp add: run_defs example_defs)
  then obtain result w' where
    run: "sendPushNotification ?e ?w ''Hi'' ''Test'' None None = (Inr result, w')"
    by blast
  have j: "1 < length ?cs"
    by (simp add: run_defs example_defs)
  have al: "\<forall>i \<le> 1. \<exists>ts. sendPushNotificationsAsync ?e (length (submitted ?w) + i) (?cs ! i) = Inr ts
                        \<and> length ts = length (?cs ! i)"
    by (simp add: example_env_def mixed_tickets_def)
  have full: "\<forall>i < length ?cs.
                \<exists>ts. sendPushNotificationsAsync ?e (length (submitted ?w) + i) (?cs ! i) = Inr ts
                     \<and> length ts = length (?cs ! i)"
    by (simp add: example_env_def mixed_tickets_def)
  have a: "sendPushNotificationsAsync ?e (length (submitted ?w) + 1) (?cs ! 1) = Inr [?tk]"
    by (simp add: run_defs example_defs)
  have k: "0 < length [?tk]" by simp
  have tk: "[?tk] ! 0 = ?tk" by simp
  have tok: "to (?cs ! 1 ! 0) = ''t3''"
    by (simp add: run_defs example_defs)
  have th: "thrown ?e (length (submitted ?w)) ?cs = []"
    by (simp add: run_defs example_defs)
  have rt: "map is_ok (returned_tickets ?e (length (submitted ?w)) ?cs) = [True, False, False]"
    by (simp add: run_defs example_defs)
  have fl: "length (filter (\<lambda>tk. \<not> is_ok tk) xs) = length (filter Not (map is_ok xs))" for xs
    by (induction xs) simp_all
  have re: "recorded_errors (answered_pairs ?e (length (submitted ?w)) ?cs)
              = [''t3: DeviceNotRegistered'']"
    by (simp add: run_defs example_defs)
  have un: "unregistered_tokens (answered_pairs ?e (length (submitted ?w)) ?cs) = [''t3'']"
    by (simp add: run_defs example_defs)
  have en: "disable_tokens [''t3''] (enabled_by_token ?w)
              = [(''t1'', True), (''t2'', True), (''t3'', False)]"
    by (simp add: disable_tokens_def enabled_by_token_def example_defs)
  from error_ticket_is_recorded_and_unregistered [OF refl ne refl run j al a k tk] full
  have "failureCount result = 2 \<and>
     errors result = [''t3: DeviceNotRegistered''] \<and>
     token_disabled w' ''t3'' \<and>
     enabled_by_token w' = [(''t1'', True), (''t2'', True), (''t3'', False)]"
    unfolding th tok fl rt re un en by simp
  with run show ?thesis
    by - (rule exI [of _ result], rule exI [of _ w'], simp)
qed

subsection \<open>Matching tickets to endpoints after a failed chunk\<close>

text \<open>
  Claim C1, what the code does when an earlier chunk throws. Let the valid endpoints be
  one more than the batch size, so that there are two chunks, the second holding the
  message of the last endpoint alone. Let the first submission throw and the second be
  answered with an ok ticket. Then the call returns success 1 and failure equal to the
  batch size, and the endpoint it marks as notified is \<^verbatim>\<open>validDevices[0]\<close>, an endpoint
  of the chunk that failed: the registry at the end is the registry at the start with
  updateDeviceLastNotified applied to the id of the first valid endpoint. The ticket
  answers the message of the last valid endpoint, the only one of the second chunk, and
  that endpoint is marked only if it carries the id of the first.
\<close>

theorem ok_ticket_after_failed_chunk_marks_first_device:
  assumes "0 < chunkLimit e"
    and "validDevices = snd (collect_valid e t b d (candidate_devices w targetUserIds))"
    and "length validDevices = chunkLimit e + 1"
    and "\<forall>chunk. sendPushNotificationsAsync e (length (submitted w)) chunk = Inl err"
    and "\<forall>chunk. sendPushNotificationsAsync e (Suc (length (submitted w))) chunk
            = Inr (map (\<lambda>m. SuccessTicket rid) chunk)"
  shows "\<exists>w'. sendPushNotification e w t b d targetUserIds
           = (Inr \<lparr>successCount = 1, failureCount = chunkLimit e, errors = [err]\<rparr>, w') \<and>
         deviceRegistrations w' =
           deviceRegistrations (updateDeviceLastNotified e w (dev_id (validDevices ! 0))) \<and>
         map (map to) (submitted w') =
           map (map to) (submitted w) @
             [map expoPushToken (take (chunkLimit e) validDevices),
              [expoPushToken (validDevices ! chunkLimit e)]]"
proof -
  let ?L = "chunkLimit e"
  let ?n = "length (submitted w)"
  let ?ms = "fst (collect_valid e t b d (candidate_devices w targetUserIds))"
  let ?cs = "chunkPushNotifications ?L ?ms"
  have ms: "?ms = map (push_message t b d) validDevices"
    using assms(2) by (simp add: fst_collect_valid)
  then have len: "length ?ms = ?L + 1" using assms(3) by simp
  then have ne: "?ms \<noteq> []" by auto
  have cs: "?cs = [take ?L ?ms, drop ?L ?ms]"
    using assms(1) len by (rule chunks_of_one_more_than_limit)
  have l1: "length (take ?L ?ms) = ?L" using len by simp
  have l2: "length (drop ?L ?ms) = 1" using len by simp
  have th: "thrown e ?n ?cs = [(take ?L ?ms, err)]"
    unfolding cs using assms(4,5) by simp
  have "returned_tickets e ?n ?cs = map (\<lambda>m. SuccessTicket rid) (drop ?L ?ms)"
    unfolding cs using assms(4,5) by simp
  also have "\<dots> = [SuccessTicket rid]"
    using l2 by (cases "drop ?L ?ms") auto
  finally have rt: "returned_tickets e ?n ?cs = [SuccessTicket rid]" .
  have d0: "device_at validDevices 0 = Some (validDevices ! 0)"
    using assms(3) by (simp add: device_at_def)
  have run: "sendPushNotification e w t b d targetUserIds =
      (Inr \<lparr>successCount = 1, failureCount = ?L, errors = [err]\<rparr>,
       updateDeviceLastNotified e (w\<lparr>submitted := submitted w @ ?cs\<rparr>) (dev_id (validDevices ! 0)))"
    unfolding sendPushNotification_run [OF refl ne refl] th rt
    using d0 l1 assms(2) by simp
  have tk: "map to (take ?L ?ms) = map expoPushToken (take ?L validDevices)"
    unfolding ms by (simp add: take_map push_message_def comp_def)
  have "drop ?L validDevices = [validDevices ! ?L]"
    using assms(3) by (metis Cons_nth_drop_Suc Suc_eq_plus1 drop_all lessI order_refl)
  then have dr: "map to (drop ?L ?ms) = [expoPushToken (validDevices ! ?L)]"
    unfolding ms by (simp add: drop_map push_message_def)
  show ?thesis
    unfolding run
    by (rule exI [of _ "updateDeviceLastNotified e (w\<lparr>submitted := submitted w @ ?cs\<rparr>)
                          (dev_id (validDevices ! 0))"])
       (simp add: updateDeviceLastNotified_def cs tk dr)
qed

theorem ticket_matched_to_failed_chunk:
  "\<exists>w'. sendPushNotification (example_env 2 first_throws) three_devices_world
            ''Hi'' ''Test'' None None
          = (Inr \<lparr>successCount = 1, failureCount = 2, errors = [''Error: network'']\<rparr>, w') \<and>
        map (\<lambda>dv. (dev_id dv, lastNotifiedAt dv)) (deviceRegistrations w')
          = [(''d1'', Some 7), (''d2'', None), (''d3'', None)] \<and>
        map (map to) (submitted w') = [[''t1'', ''t2''], [''t3'']]"
proof -
  let ?e = "example_env 2 first_throws"
  let ?w = "three_devices_world"
  have vd: "snd (collect_valid ?e ''Hi'' ''Test'' None (candidate_devices ?w None)) = three_devices"
    by (simp add: run_defs example_defs)
  have a1: "0 < chunkLimit ?e" by (simp add: example_env_def)
  have a3: "length three_devices = chunkLimit ?e + 1" by (simp add: example_defs)
  have a4: "\<forall>chunk. sendPushNotificationsAsync ?e (length (submitted ?w)) chunk
              = Inl ''Error: network''"
    by (simp add: example_defs)
  have a5: "\<forall>chunk. sendPushNotificationsAsync ?e (Suc (length (submitted ?w))) chunk
            = Inr (map (\<lambda>m. SuccessTicket ''receipt'') chunk)"
    by (simp add: example_defs)
  from ok_ticket_after_failed_chunk_marks_first_device [OF a1 vd [symmetric] a3 a4 a5]
  obtain w' where
    r: "sendPushNotification ?e ?w ''Hi'' ''Test'' None None
          = (Inr \<lparr>successCount = 1, failureCount = chunkLimit ?e, errors = [''Error: network'']\<rparr>, w')"
    and dv: "deviceRegistrations w' =
           deviceRegistrations (updateDeviceLastNotified ?e ?w (dev_id (three_devices ! 0)))"
    and sb: "map (map to) (submitted w') =
           map (map to) (submitted ?w) @
             [map expoPushToken (take (chunkLimit ?e) three_devices),
              [expoPushToken (three_devices ! chunkLimit ?e)]]"
    by blast
  have "map (\<lambda>dv. (dev_id dv, lastNotifiedAt dv)) (deviceRegistrations w')
          = [(''d1'', Some 7), (''d2'', None), (''d3'', None)]"
    unfolding dv by (simp add: updateDeviceLastNotified_def example_defs)
  moreover have "map (map to) (submitted w') = [[''t1'', ''t2''], [''t3'']]"
    unfolding sb by (simp add: example_defs)
  moreover have "chunkLimit ?e = 2" by (simp add: example_env_def)
  ultimately show ?thesis
    using r by - (rule exI [of _ w'], simp)
qed

subsection \<open>The candidate endpoints of a call\<close>

lemma count_list_filter_rows:
  assumes "distinct rows"
  shows "count_list (filter P rows) x = (if x \<in> set rows \<and> P x then 1 else 0)"
  using assms by (induction rows) auto

lemma count_list_concat_map:
  "count_list (concat (map f us)) x = sum_list (map (\<lambda>u. count_list (f u) x) us)"
  by (induction us) simp_all

lemma sum_list_indicator:
  "sum_list (map (\<lambda>u. if v = u then 1 else 0) us) = count_list us v"
  by (induction us) simp_all

text \<open>
  Claim C2 as stated asks that no endpoint occurs twice among the candidates, also when a
  user id is repeated. With the id \<open>''u1''\<close> given twice, the two endpoints of that user
  are each listed twice.
\<close>

theorem repeated_user_id_counterexample:
  "map dev_id (candidate_devices three_devices_world (Some [''u1'', ''u1'']))
     = [''d1'', ''d2'', ''d1'', ''d2'']"
  by (simp add: candidate_devices_def getDevicesForUser_def example_defs)

text \<open>
  Claim C2, amended. The ids of the registry rows being pairwise different (the primary
  key), the candidates of a call with a non-empty list of user ids hold each enabled
  endpoint as many times as the id of its owner occurs in the list, and nothing else. In
  particular, when the user ids of the list are pairwise different, each endpoint occurs
  at most once.
\<close>

theorem candidates_follow_requested_ids:
  assumes "distinct (map dev_id (deviceRegistrations w))"
    and "uids \<noteq> []"
  shows "(\<forall>device. count_list (candidate_devices w (Some uids)) device =
            (if device \<in> set (deviceRegistrations w) \<and> enabled device
             then count_list uids (userId device) else 0)) \<and>
         (distinct uids \<longrightarrow> distinct (map dev_id (candidate_devices w (Some uids))))"
proof -
  let ?rows = "deviceRegistrations w"
  have rows: "distinct ?rows" using assms(1) by (simp add: distinct_map)
  have inj: "inj_on dev_id (set ?rows)" using assms(1) by (simp add: distinct_map)
  have cand: "candidate_devices w (Some uids) = concat (map (getDevicesForUser w) uids)"
    using assms(2) by (simp add: candidate_devices_def)
  have one: "count_list (getDevicesForUser w u) device =
               (if device \<in> set ?rows \<and> enabled device
                then (if userId device = u then 1 else 0) else 0)" for u device
    unfolding getDevicesForUser_def using count_list_filter_rows [OF rows] by auto
  have count: "count_list (candidate_devices w (Some uids)) device =
            (if device \<in> set ?rows \<and> enabled device
             then count_list uids (userId device) else 0)" for device
    unfolding cand count_list_concat_map one
    by (simp add: sum_list_indicator)
  have dist: "distinct (map dev_id (concat (map (getDevicesForUser w) us)))" if "distinct us" for us
    using that
  proof (induction us)
    case Nil
    then show ?case by simp
  next
    case (Cons u us)
    have a: "distinct (map dev_id (getDevicesForUser w u))"
      unfolding getDevicesForUser_def using assms(1) by (rule distinct_map_filter)
    have b: "dev_id x \<noteq> dev_id y"
      if "x \<in> set (getDevicesForUser w u)" "y \<in> set (concat (map (getDevicesForUser w) us))"
      for x y
    proof
      assume eq: "dev_id x = dev_id y"
      from that(1) have x: "x \<in> set ?rows" "userId x = u" by (auto simp: getDevicesForUser_def)
      from that(2) obtain v where v: "v \<in> set us" "y \<in> set ?rows" "userId y = v"
        by (auto simp: getDevicesForUser_def)
      from inj eq x(1) v(2) have "x = y" by (rule inj_onD)
      with x v Cons.prems show False by auto
    qed
    from Cons have "distinct (map dev_id (concat (map (getDevicesForUser w) us)))" by simp
    with a b show ?case by auto
  qed
  from count dist cand show ?thesis by simp
qed

theorem candidates_witness:
  "map dev_id (candidate_devices three_devices_world (Some [''u2'', ''u1'']))
     = [''d3'', ''d1'', ''d2''] \<and>
   distinct (map dev_id (candidate_devices three_devices_world (Some [''u2'', ''u1''])))"
proof -
  have d: "distinct (map dev_id (deviceRegistrations three_devices_world))"
    by (simp add: example_defs)
  have n: "[''u2'', ''u1''] \<noteq> []" by simp
  have u: "distinct [''u2'', ''u1'']" by simp
  have l: "map dev_id (candidate_devices three_devices_world (Some [''u2'', ''u1'']))
     = [''d3'', ''d1'', ''d2'']"
    by (simp add: candidate_devices_def getDevicesForUser_def example_defs)
  from candidates_follow_requested_ids [OF d n] u l show ?thesis by blast
qed

subsection \<open>The sweep over the due messages\<close>

lemma notificationMessages_handle_tickets_sf:
  "handle_tickets_sf sf e vd i ts w r = (res, w') \<Longrightarrow>
   notificationMessages w' = notificationMessages w"
  by (induction sf e vd i ts w r rule: handle_tickets_sf.induct)
     (auto split: option.splits if_splits)

lemma notificationMessages_sendPushNotification_sf:
  assumes "sendPushNotification_sf sf e w t b d tg = (res, w')"
  shows "notificationMessages w' = notificationMessages w"
proof (cases "candidate_devices_sf sf w tg")
  case (Inl err)
  with assms show ?thesis by (simp add: sendPushNotification_sf_def)
next
  case (Inr devices)
  show ?thesis
  proof (cases "devices = [] \<or> fst (collect_valid e t b d devices) = []")
    case True
    with assms Inr show ?thesis
      by (auto simp: sendPushNotification_sf_def Let_def split: if_splits)
  next
    case False
    obtain w1 tk r where sc: "send_chunks e (chunkPushNotifications (chunkLimit e)
            (fst (collect_valid e t b d devices))) w []
            \<lparr>successCount = 0, failureCount = 0, errors = []\<rparr> = (w1, tk, r)"
      by (metis prod_cases3)
    with False assms Inr
    have "handle_tickets_sf sf e (snd (collect_valid e t b d devices)) 0 tk w1 r = (res, w')"
      by (simp add: sendPushNotification_sf_def Let_def)
    then have "notificationMessages w' = notificationMessages w1"
      by (rule notificationMessages_handle_tickets_sf)
    with notificationMessages_send_chunks [OF sc] show ?thesis by simp
  qed
qed

lemma getNotificationMessage_other:
  "j \<noteq> i \<Longrightarrow>
   getNotificationMessage (updateNotificationStatus e w i st sc fc) j = getNotificationMessage w j"
  by (simp add: getNotificationMessage_updated option.map_ident)

lemma getNotificationMessage_sendPushNotification_sf:
  "sendPushNotification_sf sf e w t b d tg = (res, w') \<Longrightarrow>
   getNotificationMessage w' j = getNotificationMessage w j"
  by (rule getNotificationMessage_cong) (rule notificationMessages_sendPushNotification_sf)

text \<open>
  What an attempt on a pending message does to the message table, whether it returns or
  raises and wherever it raises: the rows of the other messages are as before, and the
  row of the message is still there, with status sent when the attempt returned.
\<close>

lemma attempt_on_pending:
  assumes "sendNotificationMessage_sf sf e w i = (res, w')"
    and "getNotificationMessage w i = Some m"
    and "status m = ''pending''"
  shows "(\<forall>j. j \<noteq> i \<longrightarrow> getNotificationMessage w' j = getNotificationMessage w j) \<and>
         (\<exists>m1. getNotificationMessage w' i = Some m1 \<and>
               (case res of Inl err \<Rightarrow> True | Inr result \<Rightarrow> status m1 = ''sent''))"
proof (cases "sf (GetNotificationMessage i) w \<or> sf (UpdateNotificationStatus i ''sending'') w")
  case True
  with assms have "res = Inl StorageError" "w' = w"
    by (auto simp: sendNotificationMessage_sf_def split: if_splits)
  with assms(2) show ?thesis by simp
next
  case False
  let ?w1 = "updateNotificationStatus e w i ''sending'' None None"
  have own1: "getNotificationMessage ?w1 i = Some (apply_updates e ''sending'' None None m)"
    using assms(2) by (simp add: getNotificationMessage_updated)
  have other1: "getNotificationMessage ?w1 j = getNotificationMessage w j" if "j \<noteq> i" for j
    using that by (rule getNotificationMessage_other)
  show ?thesis
  proof (cases "parse_data e m")
    case (Inl err)
    with False assms have "res = Inl err" "w' = ?w1"
      by (simp_all add: sendNotificationMessage_sf_def)
    with own1 other1 show ?thesis by simp
  next
    case (Inr d)
    obtain r2 w2 where sp: "sendPushNotification_sf sf e ?w1 (title m) (body m) d None = (r2, w2)"
      by (cases "sendPushNotification_sf sf e ?w1 (title m) (body m) d None")
    note same = getNotificationMessage_sendPushNotification_sf [OF sp]
    have own2: "getNotificationMessage w2 i = Some (apply_updates e ''sending'' None None m)"
      using same own1 by simp
    have other2: "getNotificationMessage w2 j = getNotificationMessage w j" if "j \<noteq> i" for j
      using same other1 [OF that] by simp
    show ?thesis
    proof (cases r2)
      case (Inl err)
      with False assms Inr sp have "res = Inl err" "w' = w2"
        by (simp_all add: sendNotificationMessage_sf_def)
      with own2 other2 show ?thesis by simp
    next
      case (Inr result)
      show ?thesis
      proof (cases "sf (UpdateNotificationStatus i ''sent'') w2")
        case True
        with False assms \<open>parse_data e m = Inr d\<close> sp Inr
        have "res = Inl StorageError" "w' = w2"
          by (simp_all add: sendNotificationMessage_sf_def)
        with own2 other2 show ?thesis by simp
      next
        case nf: False
        with False assms \<open>parse_data e m = Inr d\<close> sp Inr
        have "res = Inr result"
          "w' = updateNotificationStatus e w2 i ''sent''
                     (Some (successCount result)) (Some (failureCount result))"
          by (simp_all add: sendNotificationMessage_sf_def)
        with own2 other2 show ?thesis
          by (simp add: getNotificationMessage_updated apply_updates_def option.map_ident)
      qed
    qed
  qed
qed

lemma process_message_on_pending:
  assumes "getNotificationMessage w (msg_id m) = Some m0"
    and "status m0 = ''pending''"
  shows "(\<forall>j. j \<noteq> msg_id m \<longrightarrow>
            getNotificationMessage (snd (process_message sf e w m)) j = getNotificationMessage w j) \<and>
         (\<exists>m1. getNotificationMessage (snd (process_message sf e w m)) (msg_id m) = Some m1) \<and>
         ((\<forall>w1. \<not> sf (UpdateNotificationStatus (msg_id m) ''failed'') w1) \<longrightarrow>
            fst (process_message sf e w m) = None \<and>
            (\<exists>m'. getNotificationMessage (snd (process_message sf e w m)) (msg_id m) = Some m' \<and>
                  status m' = (case fst (sendNotificationMessage_sf sf e w (msg_id m)) of
                                 Inl err \<Rightarrow> ''failed'' | Inr result \<Rightarrow> ''sent'')))"
proof -
  obtain res w1 where s: "sendNotificationMessage_sf sf e w (msg_id m) = (res, w1)"
    by (cases "sendNotificationMessage_sf sf e w (msg_id m)")
  from attempt_on_pending [OF s assms] obtain m1 where
    other: "\<forall>j. j \<noteq> msg_id m \<longrightarrow> getNotificationMessage w1 j = getNotificationMessage w j"
    and m1: "getNotificationMessage w1 (msg_id m) = Some m1"
    and st: "case res of Inl err \<Rightarrow> True | Inr result \<Rightarrow> status m1 = ''sent''"
    by blast
  show ?thesis
  proof (cases res)
    case (Inr result)
    with s other m1 st show ?thesis by (simp add: process_message_def)
  next
    case (Inl err)
    show ?thesis
    proof (cases "sf (UpdateNotificationStatus (msg_id m) ''failed'') w1")
      case True
      with s Inl other m1 show ?thesis by (auto simp: process_message_def)
    next
      case False
      with s Inl other m1 show ?thesis
        by (simp add: process_message_def getNotificationMessage_updated
            apply_updates_def option.map_ident)
    qed
  qed
qed

lemma attempt_frame:
  assumes "sendNotificationMessage_sf sf e w i = (res, w')" and "j \<noteq> i"
  shows "getNotificationMessage w' j = getNotificationMessage w j"
proof (cases "getNotificationMessage w i")
  case None
  with assms have "w' = w"
    by (auto simp: sendNotificationMessage_sf_def split: if_splits)
  then show ?thesis by simp
next
  case (Some m)
  show ?thesis
  proof (cases "status m = ''pending''")
    case True
    from attempt_on_pending [OF assms(1) Some True] assms(2) show ?thesis by blast
  next
    case False
    with Some assms have "w' = w"
      by (auto simp: sendNotificationMessage_sf_def split: if_splits)
    then show ?thesis by simp
  qed
qed

lemma process_message_frame:
  assumes "j \<noteq> msg_id m"
  shows "getNotificationMessage (snd (process_message sf e w m)) j = getNotificationMessage w j"
proof -
  obtain res w1 where s: "sendNotificationMessage_sf sf e w (msg_id m) = (res, w1)"
    by (cases "sendNotificationMessage_sf sf e w (msg_id m)")
  from attempt_frame [OF s assms]
  show ?thesis
    using s assms
    by (cases res) (simp_all add: process_message_def getNotificationMessage_other)
qed

lemma process_all_frame:
  "j \<notin> msg_id ` set ms \<Longrightarrow>
   getNotificationMessage (snd (process_all sf e ms w)) j = getNotificationMessage w j"
proof (induction ms arbitrary: w)
  case Nil
  then show ?case by simp
next
  case (Cons m ms)
  then have a: "j \<noteq> msg_id m" and b: "j \<notin> msg_id ` set ms" by auto
  obtain x w1 where p: "process_message sf e w m = (x, w1)"
    by (cases "process_message sf e w m")
  from process_message_frame [OF a, of sf e w] p
  have f: "getNotificationMessage w1 j = getNotificationMessage w j" by simp
  show ?case
  proof (cases x)
    case None
    with p Cons.IH [OF b, of w1] f show ?thesis by simp
  next
    case (Some err)
    with p f show ?thesis by simp
  qed
qed

lemma process_all_append:
  "fst (process_all sf e xs w) = None \<Longrightarrow>
   process_all sf e (xs @ ys) w = process_all sf e ys (snd (process_all sf e xs w))"
proof (induction xs arbitrary: w)
  case Nil
  then show ?case by simp
next
  case (Cons m xs)
  obtain x w1 where p: "process_message sf e w m = (x, w1)"
    by (cases "process_message sf e w m")
  show ?case
  proof (cases x)
    case None
    with p Cons.prems have "fst (process_all sf e xs w1) = None" by simp
    from Cons.IH [OF this] p None show ?thesis by simp
  next
    case (Some err)
    with p Cons.prems show ?thesis by simp
  qed
qed

lemma row_found_by_id:
  "distinct (map msg_id rows) \<Longrightarrow> m \<in> set rows \<Longrightarrow>
   filter (\<lambda>x. msg_id x = msg_id m) rows = [m]"
proof (induction rows)
  case Nil
  then show ?case by simp
next
  case (Cons a rows)
  from Cons.prems have fresh: "msg_id a \<notin> set (map msg_id rows)" by simp
  show ?case
  proof (cases "a = m")
    case True
    with fresh have "\<forall>x \<in> set rows. msg_id x \<noteq> msg_id m" by (metis image_eqI set_map)
    then have "filter (\<lambda>x. msg_id x = msg_id m) rows = []" by (simp add: filter_empty_conv)
    with True show ?thesis by simp
  next
    case False
    with Cons.prems have m: "m \<in> set rows" by simp
    with fresh have "msg_id a \<noteq> msg_id m" by (metis image_eqI set_map)
    with m Cons show ?thesis by simp
  qed
qed

lemma getNotificationMessage_row:
  "distinct (map msg_id (notificationMessages w)) \<Longrightarrow> m \<in> set (notificationMessages w) \<Longrightarrow>
   getNotificationMessage w (msg_id m) = Some m"
  by (simp add: getNotificationMessage_def row_found_by_id)

text \<open>
  A sweep over messages that are pending where it starts and whose ids are pairwise
  different ends normally when no update to failed is rejected.
\<close>

lemma process_all_completes:
  assumes "\<forall>m \<in> set ms. \<forall>w1. \<not> sf (UpdateNotificationStatus (msg_id m) ''failed'') w1"
    and "distinct (map msg_id ms)"
    and "\<forall>m \<in> set ms. \<exists>m0. getNotificationMessage w (msg_id m) = Some m0 \<and> status m0 = ''pending''"
  shows "fst (process_all sf e ms w) = None"
  using assms
proof (induction ms arbitrary: w)
  case Nil
  then show ?case by simp
next
  case (Cons m ms)
  from Cons.prems(3) obtain m0 where
    m0: "getNotificationMessage w (msg_id m) = Some m0" "status m0 = ''pending''" by auto
  from Cons.prems(1) have nf: "\<forall>w1. \<not> sf (UpdateNotificationStatus (msg_id m) ''failed'') w1"
    by simp
  from process_message_on_pending [OF m0, of sf e] nf
  have ok: "fst (process_message sf e w m) = None" by blast
  let ?w1 = "snd (process_message sf e w m)"
  have still: "\<forall>x \<in> set ms. \<exists>m0. getNotificationMessage ?w1 (msg_id x) = Some m0
                                     \<and> status m0 = ''pending''"
  proof
    fix x assume x: "x \<in> set ms"
    from Cons.prems(2) have "msg_id m \<notin> set (map msg_id ms)" by simp
    with x have "msg_id x \<noteq> msg_id m" by (metis image_eqI set_map)
    from process_message_frame [OF this] Cons.prems(3) x
    show "\<exists>m0. getNotificationMessage ?w1 (msg_id x) = Some m0 \<and> status m0 = ''pending''"
      by simp
  qed
  have "fst (process_all sf e ms ?w1) = None"
    using Cons.prems(1,2) still by (intro Cons.IH) simp_all
  with ok show ?case by (cases "process_message sf e w m") simp
qed

text \<open>With a storage that rejects nothing the two embeddings agree.\<close>

lemma handle_tickets_sf_agrees:
  assumes "\<And>op w. \<not> sf op w"
  shows "handle_tickets_sf sf e vd i ts w r = handle_tickets e vd i ts w r"
proof (induction e vd i ts w r rule: handle_tickets.induct)
  case (1 e vd i w r)
  show ?case by simp
next
  case (2 e vd i rid rest w r)
  show ?case
  proof (cases "device_at vd i")
    case None
    then show ?thesis by simp
  next
    case (Some dv)
    with "2.IH" [OF Some] show ?thesis by (simp add: assms)
  qed
next
  case (3 e vd i m details rest w r)
  show ?case
  proof (cases "details = None \<or> details = Some []")
    case True
    with "3.IH"(1,2) show ?thesis by auto
  next
    case False
    then obtain reason where d: "details = Some reason" and ne: "reason \<noteq> []" by auto
    show ?thesis
    proof (cases "device_at vd i")
      case None
      with d ne show ?thesis by simp
    next
      case (Some dv)
      from "3.IH"(3) [OF d ne Some] d ne Some show ?thesis
        by (cases "reason = ''DeviceNotRegistered''") (simp_all add: assms)
    qed
  qed
qed

lemma candidate_devices_sf_agrees:
  assumes "\<And>op w. \<not> sf op w"
  shows "candidate_devices_sf sf w tg = Inr (candidate_devices w tg)"
  by (simp add: candidate_devices_sf_def candidate_devices_def assms list_ex_iff
      split: option.splits)

lemma sendPushNotification_sf_agrees:
  assumes "\<And>op w. \<not> sf op w"
  shows "sendPushNotification_sf sf e w t b d tg = sendPushNotification e w t b d tg"
  by (simp add: sendPushNotification_sf_def sendPushNotification_def
      candidate_devices_sf_agrees [OF assms] handle_tickets_sf_agrees [OF assms] Let_def
      cong: prod.case_cong)

lemma sendNotificationMessage_sf_agrees:
  assumes "\<And>op w. \<not> sf op w"
  shows "sendNotificationMessage_sf sf e w i = sendNotificationMessage e w i"
  by (simp add: sendNotificationMessage_sf_def sendNotificationMessage_def
      sendPushNotification_sf_agrees [OF assms] assms Let_def
      cong: option.case_cong sum.case_cong prod.case_cong if_cong)

text \<open>
  Claim C7 as stated has every raising attempt end in a message marked failed and the
  sweep go on. The update of line 130 is itself a storage call. Three due messages, the
  payload of the second does not parse, and the update that would mark it failed is
  rejected: the sweep ends with that exception, the second message is left sending and
  the third is never attempted.
\<close>

theorem rejected_failed_update_counterexample:
  "fst (processPendingNotifications failed_update_rejected (example_env 100 accept_all)
          three_messages_world) = Some StorageError \<and>
   map (\<lambda>m. (msg_id m, status m))
     (notificationMessages
        (snd (processPendingNotifications failed_update_rejected (example_env 100 accept_all)
                three_messages_world)))
     = [(''m1'', ''sent''), (''m2'', ''sending''), (''m3'', ''pending'')]"
  by (simp add: message_defs run_defs example_defs Let_def)

text \<open>
  Claim C7, amended. Let the ids of the stored messages be pairwise different (the primary
  key), let the query for the due messages succeed, and let no update that marks a due
  message failed be rejected; every other storage call may be rejected. Then
  processPendingNotifications ends normally, and every message that was due when the run
  began is attempted, in the order of the list: the loop reaches it, after the messages
  before it have been processed, whether their attempts raised or not, and its row is
  then still pending. In the final state the message is failed when its attempt raised
  an exception (of the parser, of a property read, or of the storage), and sent when its
  attempt returned.
\<close>

theorem failed_message_does_not_block_the_batch:
  assumes "distinct (map msg_id (notificationMessages w))"
    and "\<not> sf GetPendingNotifications w"
    and "pending = getPendingNotifications e w"
    and "\<forall>m \<in> set pending. \<forall>w1. \<not> sf (UpdateNotificationStatus (msg_id m) ''failed'') w1"
  shows "fst (processPendingNotifications sf e w) = None \<and>
         (\<forall>j < length pending. \<exists>m m'.
            fst (process_all sf e (take j pending) w) = None \<and>
            getNotificationMessage (snd (process_all sf e (take j pending) w)) (msg_id (pending ! j))
              = Some m \<and>
            status m = ''pending'' \<and>
            getNotificationMessage (snd (processPendingNotifications sf e w)) (msg_id (pending ! j))
              = Some m' \<and>
            status m' =
              (case fst (sendNotificationMessage_sf sf e (snd (process_all sf e (take j pending) w))
                           (msg_id (pending ! j))) of
                 Inl err \<Rightarrow> ''failed''
               | Inr result \<Rightarrow> ''sent''))"
proof -
  have dp: "distinct (map msg_id pending)"
    unfolding assms(3) getPendingNotifications_def using assms(1) by (rule distinct_map_filter)
  have rows: "\<forall>m \<in> set pending. getNotificationMessage w (msg_id m) = Some m \<and> status m = ''pending''"
  proof
    fix m assume "m \<in> set pending"
    then have "m \<in> set (notificationMessages w)" and st: "status m = ''pending''"
      unfolding assms(3) getPendingNotifications_def by simp_all
    with assms(1) show "getNotificationMessage w (msg_id m) = Some m \<and> status m = ''pending''"
      by (simp add: getNotificationMessage_row)
  qed
  have run: "processPendingNotifications sf e w = process_all sf e pending w"
    using assms(2,3) by (simp add: processPendingNotifications_def)
  have completes: "fst (process_all sf e ms w) = None" if "set ms \<subseteq> set pending" "distinct (map msg_id ms)" for ms
    using that assms(4) rows by (intro process_all_completes) auto
  have whole: "fst (processPendingNotifications sf e w) = None"
    unfolding run using dp by (intro completes) simp_all
  have each: "\<exists>m m'.
            fst (process_all sf e (take j pending) w) = None \<and>
            getNotificationMessage (snd (process_all sf e (take j pending) w)) (msg_id (pending ! j))
              = Some m \<and>
            status m = ''pending'' \<and>
            getNotificationMessage (snd (processPendingNotifications sf e w)) (msg_id (pending ! j))
              = Some m' \<and>
            status m' =
              (case fst (sendNotificationMessage_sf sf e (snd (process_all sf e (take j pending) w))
                           (msg_id (pending ! j))) of
                 Inl err \<Rightarrow> ''failed''
               | Inr result \<Rightarrow> ''sent'')" if j: "j < length pending" for j
  proof -
    let ?m = "pending ! j"
    let ?wj = "snd (process_all sf e (take j pending) w)"
    have split: "pending = take j pending @ ?m # drop (Suc j) pending"
      using j by (rule id_take_nth_drop)
    then have "distinct (map msg_id (take j pending) @ msg_id ?m # map msg_id (drop (Suc j) pending))"
      using dp by (metis list.simps(9) map_append)
    then have before: "msg_id ?m \<notin> msg_id ` set (take j pending)"
      and after: "msg_id ?m \<notin> msg_id ` set (drop (Suc j) pending)"
      and dt: "distinct (map msg_id (take j pending))"
      by auto
    have prefix_ok: "fst (process_all sf e (take j pending) w) = None"
      using dt by (intro completes) (auto dest: in_set_takeD)
    have mem: "?m \<in> set pending" using j by simp
    with rows have "getNotificationMessage w (msg_id ?m) = Some ?m" and st: "status ?m = ''pending''"
      by simp_all
    then have at_j: "getNotificationMessage ?wj (msg_id ?m) = Some ?m"
      using process_all_frame [OF before] by simp
    from assms(4) mem have nf: "\<forall>w1. \<not> sf (UpdateNotificationStatus (msg_id ?m) ''failed'') w1"
      by simp
    from process_message_on_pending [OF at_j st, of sf e] nf obtain m' where
      ok: "fst (process_message sf e ?wj ?m) = None"
      and m': "getNotificationMessage (snd (process_message sf e ?wj ?m)) (msg_id ?m) = Some m'"
      and out: "status m' = (case fst (sendNotificationMessage_sf sf e ?wj (msg_id ?m)) of
                               Inl err \<Rightarrow> ''failed'' | Inr result \<Rightarrow> ''sent'')"
      by blast
    have "process_all sf e pending w = process_all sf e (?m # drop (Suc j) pending) ?wj"
      by (subst split) (rule process_all_append [OF prefix_ok])
    also have "\<dots> = process_all sf e (drop (Suc j) pending) (snd (process_message sf e ?wj ?m))"
      using ok by (cases "process_message sf e ?wj ?m") simp
    finally have "getNotificationMessage (snd (processPendingNotifications sf e w)) (msg_id ?m)
                    = Some m'"
      unfolding run using process_all_frame [OF after] m' by simp
    with prefix_ok at_j st out show ?thesis by blast
  qed
  from whole each show ?thesis by blast
qed

theorem batch_isolation_witness:
  "fst (processPendingNotifications sending_update_rejected (example_env 100 accept_all)
          three_messages_world) = None \<and>
   (\<exists>m'. getNotificationMessage
            (snd (processPendingNotifications sending_update_rejected
                    (example_env 100 accept_all) three_messages_world)) ''m2''
            = Some m' \<and> status m' = ''failed'') \<and>
   (\<exists>m'. getNotificationMessage
            (snd (processPendingNotifications sending_update_rejected
                    (example_env 100 accept_all) three_messages_world)) ''m3''
            = Some m' \<and> status m' = ''sent'')"
proof -
  let ?e = "example_env 100 accept_all"
  let ?sf = "sending_update_rejected"
  let ?w = "three_messages_world"
  let ?ms = "[example_message ''m1'' ''pending'' (Some ''{}''),
              example_message ''m2'' ''pending'' (Some ''{bad''),
              example_message ''m3'' ''pending'' None]"
  have d: "distinct (map msg_id (notificationMessages ?w))"
    by (simp add: message_defs)
  have q: "\<not> ?sf GetPendingNotifications ?w"
    by (simp add: sending_update_rejected_def)
  have p: "?ms = getPendingNotifications ?e ?w"
    by (simp add: message_defs)
  have h: "\<forall>m \<in> set ?ms. \<forall>w1. \<not> ?sf (UpdateNotificationStatus (msg_id m) ''failed'') w1"
    by (simp add: sending_update_rejected_def)
  note all = failed_message_does_not_block_the_batch [OF d q p h]
  have second: "fst (sendNotificationMessage_sf ?sf ?e (snd (process_all ?sf ?e (take 1 ?ms) ?w)) ''m2'')
                  = Inl StorageError"
    by (simp add: message_defs run_defs example_defs Let_def)
  have "\<exists>result.
          fst (sendNotificationMessage_sf ?sf ?e (snd (process_all ?sf ?e (take 2 ?ms) ?w)) ''m3'')
            = Inr result"
    by (simp add: message_defs run_defs example_defs Let_def)
  then obtain result where
    third: "fst (sendNotificationMessage_sf ?sf ?e (snd (process_all ?sf ?e (take 2 ?ms) ?w)) ''m3'')
              = Inr result"
    by blast
  have i2: "msg_id (?ms ! 1) = ''m2''" and i3: "msg_id (?ms ! 2) = ''m3''"
    by (simp_all add: example_message_def)
  have l1: "1 < length ?ms" and l2: "2 < length ?ms" by simp_all
  from all have whole: "fst (processPendingNotifications ?sf ?e ?w) = None" by blast
  from all have each: "\<forall>j < length ?ms. \<exists>m m'.
            fst (process_all ?sf ?e (take j ?ms) ?w) = None \<and>
            getNotificationMessage (snd (process_all ?sf ?e (take j ?ms) ?w)) (msg_id (?ms ! j))
              = Some m \<and>
            status m = ''pending'' \<and>
            getNotificationMessage (snd (processPendingNotifications ?sf ?e ?w)) (msg_id (?ms ! j))
              = Some m' \<and>
            status m' =
              (case fst (sendNotificationMessage_sf ?sf ?e (snd (process_all ?sf ?e (take j ?ms) ?w))
                           (msg_id (?ms ! j))) of
                 Inl err \<Rightarrow> ''failed''
               | Inr result \<Rightarrow> ''sent'')" by blast
  from each [rule_format, OF l1]
  have a: "\<exists>m'. getNotificationMessage (snd (processPendingNotifications ?sf ?e ?w)) ''m2'' = Some m'
                  \<and> status m' = ''failed''"
    unfolding i2 second by auto
  from each [rule_format, OF l2]
  have b: "\<exists>m'. getNotificationMessage (snd (processPendingNotifications ?sf ?e ?w)) ''m3'' = Some m'
                  \<and> status m' = ''sent''"
    unfolding i3 third by auto
  from whole a b show ?thesis by blast
qed

end
